theory Spec2Isabelle
  imports Complex_Main "HOL-Library.Sublist"
begin

section \<open>Python string primitives used by the sources\<close>

text \<open>
  Python texts are sequences of characters; they are modelled as \<open>string\<close>, one
  \<open>char\<close> for each character of the text. Indices are Python integers (\<open>int\<close>).
\<close>

text \<open>Index normalisation of a slice bound: a negative bound counts from the end, and
  every bound is clamped to \<open>0..len\<close>.\<close>

definition norm_index :: "int \<Rightarrow> nat \<Rightarrow> nat" where
  "norm_index i n = (if i < 0 then nat (max (i + int n) 0) else min (nat i) n)"

text \<open>\<open>text[start:end]\<close>.\<close>

definition py_slice :: "'a list \<Rightarrow> int \<Rightarrow> int \<Rightarrow> 'a list" where
  "py_slice xs i j =
     (let a = norm_index i (length xs); b = norm_index j (length xs)
      in take (b - a) (drop a xs))"

text \<open>The scan of \<open>str.rfind\<close>: the candidates \<open>a + k - 1\<close> down to \<open>a\<close>.\<close>

primrec rfind_scan :: "'a list \<Rightarrow> 'a list \<Rightarrow> nat \<Rightarrow> nat \<Rightarrow> nat option" where
  "rfind_scan xs sub a 0 = None"
| "rfind_scan xs sub a (Suc k) =
     (if take (length sub) (drop (a + k) xs) = sub then Some (a + k)
      else rfind_scan xs sub a k)"

text \<open>\<open>text.rfind(sub, start, end)\<close>: the highest index \<open>p\<close> with the occurrence of
  \<open>sub\<close> at \<open>p\<close> lying inside \<open>text[start:end]\<close>, or \<open>-1\<close>.\<close>

definition py_rfind :: "'a list \<Rightarrow> 'a list \<Rightarrow> int \<Rightarrow> int \<Rightarrow> int" where
  "py_rfind xs sub i j =
     (let a = norm_index i (length xs); b = norm_index j (length xs)
      in case rfind_scan xs sub a (Suc b - (a + length sub)) of
           None \<Rightarrow> - 1
         | Some p \<Rightarrow> int p)"

section \<open>The chunker (app.py, \<open>chunk_text\<close>)\<close>

text \<open>The boundary strings, in the order the source tries them.\<close>

definition boundaries :: "string list" where
  "boundaries = [[CHR 0x0A, CHR 0x0A], ''.'', ''?'', ''!'']"

text \<open>The inner \<open>for\<close> loop: the first boundary string found in the window moves
  \<open>end\<close> just behind its last occurrence's first character, and the loop stops.\<close>

fun find_boundary :: "string \<Rightarrow> string list \<Rightarrow> int \<Rightarrow> int \<Rightarrow> int" where
  "find_boundary text [] start end = end"
| "find_boundary text (c # cs) start end =
     (let pos = py_rfind text c start end
      in if pos \<noteq> - 1 then pos + 1 else find_boundary text cs start end)"

definition chunk_end :: "string \<Rightarrow> int \<Rightarrow> int \<Rightarrow> int" where
  "chunk_end text chunk_size start =
     (let text_length = int (length text);
          end = min (start + chunk_size) text_length
      in if end < text_length then find_boundary text boundaries start end else end)"

definition next_start :: "int \<Rightarrow> int \<Rightarrow> int \<Rightarrow> int" where
  "next_start overlap start end = (if end - overlap > start then end - overlap else end)"

text \<open>The \<open>while\<close> loop. It does not terminate for every argument (a chunk size of
  zero never advances), so not returning is the value \<open>None\<close>.\<close>

partial_function (option) chunk_loop ::
  "string \<Rightarrow> int \<Rightarrow> int \<Rightarrow> int \<Rightarrow> string list \<Rightarrow> string list option" where
  "chunk_loop text chunk_size overlap start chunks =
     (if start < int (length text) then
        (let end = chunk_end text chunk_size start
         in chunk_loop text chunk_size overlap (next_start overlap start end)
              (chunks @ [py_slice text start end]))
      else Some chunks)"

declare chunk_loop.simps [code]

definition chunk_text :: "string \<Rightarrow> int \<Rightarrow> int \<Rightarrow> string list option" where
  "chunk_text text chunk_size overlap =
     (if text = [] then Some [] else chunk_loop text chunk_size overlap 0 [])"

subsection \<open>Spans of the text, to state what the chunks cover\<close>

text \<open>A span \<open>(s, e)\<close> stands for the characters \<open>s, \<dots>, e - 1\<close> of the text.\<close>

definition slices :: "string \<Rightarrow> (nat \<times> nat) list \<Rightarrow> string list" where
  "slices text spans = map (\<lambda>(s, e). take (e - s) (drop s text)) spans"

text \<open>Consecutive spans: the next one starts later, not behind the end of the
  previous one, and shares at most \<open>ov\<close> characters with it.\<close>

fun linked :: "int \<Rightarrow> (nat \<times> nat) list \<Rightarrow> bool" where
  "linked ov [] = True"
| "linked ov [x] = True"
| "linked ov ((s, e) # (s', e') # r) =
     (s < s' \<and> s' \<le> e \<and> int (e - s') \<le> ov \<and> linked ov ((s', e') # r))"

text \<open>Every position from \<open>a\<close> up to \<open>n\<close> lies in some span.\<close>

definition covers :: "nat \<Rightarrow> nat \<Rightarrow> (nat \<times> nat) list \<Rightarrow> bool" where
  "covers a n spans = (\<forall>p. a \<le> p \<and> p < n \<longrightarrow> (\<exists>(s, e) \<in> set spans. s \<le> p \<and> p < e))"

text \<open>Every span is non-empty, inside the text and at most \<open>cs\<close> long.\<close>

definition bounded_spans :: "nat \<Rightarrow> int \<Rightarrow> (nat \<times> nat) list \<Rightarrow> bool" where
  "bounded_spans n cs spans = (\<forall>(s, e) \<in> set spans. s < e \<and> e \<le> n \<and> int (e - s) \<le> cs)"


section \<open>The vector store adapter (vector_store.py)\<close>

subsection \<open>Exceptions\<close>

text \<open>
  The handlers of the sources tell three classes apart: pymilvus'
  \<open>ConnectionNotExistException\<close> (the stale connection), \<open>json.JSONDecodeError\<close>, and
  every other \<open>Exception\<close>. The string is the message of the exception.
\<close>

datatype exn =
    ConnectionNotExistException string
  | JSONDecodeError string
  | OtherException string

text \<open>\<open>str(e)\<close>: pymilvus prints its exceptions as
  \<open><Class: (code=c, message=m)>\<close>, with code 1 where none is given.\<close>

fun exn_str :: "exn \<Rightarrow> string" where
  "exn_str (ConnectionNotExistException m) =
     ''<ConnectionNotExistException: (code=1, message='' @ m @ '')>''"
| "exn_str (JSONDecodeError m) = m"
| "exn_str (OtherException m) = m"

text \<open>The test of \<open>except ConnectionNotExistException\<close>.\<close>

fun is_stale :: "exn \<Rightarrow> bool" where
  "is_stale (ConnectionNotExistException m) = True"
| "is_stale e = False"

subsection \<open>The engine and the operating system, as the adapter uses them\<close>

text \<open>
  pymilvus, \<open>uuid\<close>, \<open>time\<close> and \<open>os\<close> are the environment of the adapter. The
  environment is a state (the connections by alias, the collections by location and name)
  with oracles: for every kind of call, whether the \<open>k\<close>-th call of that kind raises; the
  \<open>k\<close>-th uuid (\<open>str(uuid.uuid4())\<close>) and clock reading (\<open>str(int(time.time()))\<close>); the
  hits of the \<open>k\<close>-th search. \<open>workspace\<close> is the directory above the one of the
  module (\<open>workspace_root\<close>). \<open>regens\<close> counts the locations that \<open>_connect\<close> has
  regenerated.
\<close>

type_synonym vec = "real list"

datatype field_schema =
    Int64Field string bool bool
  | VarcharField string nat
  | FloatVectorField string int

record index_params =
  metric_type :: string
  index_type :: string
  nlist :: nat

record entity =
  e_id :: int
  e_text :: string
  e_metadata :: string
  e_embedding :: vec

record coll =
  c_schema :: "field_schema list"
  c_entities :: "entity list"
  c_flushed :: nat
  c_index :: "(string \<times> index_params) option"
  c_loaded :: bool

record hit =
  h_id :: int
  h_text :: string
  h_metadata :: string
  h_distance :: real

datatype call =
    KDisconnect | KConnect | KListCollections | KMakedirs | KCleanup | KHasConnection
  | KHasCollection | KDropCollection | KCollection | KCreateIndex | KLoad
  | KInsert | KFlush | KSearch

datatype event =
    EDisconnect string
  | EConnect string string
  | EListCollections string
  | ESleep nat
  | EMakedirs string
  | ECleanup
  | EHasConnection string
  | EHasCollection string string
  | EDropCollection string string
  | ECollection string string
  | ECreateIndex string string
  | ELoad string string
  | EInsert string string "string list" "string list" "vec list"
  | EFlush string string
  | ESearch string string vec int

record world =
  conns :: "string \<rightharpoonup> string"
  dbs :: "string \<Rightarrow> string \<rightharpoonup> coll"
  next_pk :: int
  calls :: "call \<Rightarrow> nat"
  fault :: "call \<Rightarrow> nat \<Rightarrow> exn option"
  regens :: nat
  uuid4 :: "nat \<Rightarrow> string"
  uuid_calls :: nat
  clock :: "nat \<Rightarrow> string"
  clock_calls :: nat
  hits :: "nat \<Rightarrow> hit list list"
  workspace :: string
  trace :: "event list"

text \<open>The prologue of every call of the environment: the call is logged and counted,
  and the oracle says whether it raises.\<close>

definition env_call :: "call \<Rightarrow> event \<Rightarrow> world \<Rightarrow> exn option \<times> world" where
  "env_call k ev w =
     (fault w k (calls w k),
      w\<lparr>calls := (calls w)(k := Suc (calls w k)), trace := trace w @ [ev]\<rparr>)"

text \<open>A call on an alias without a connection raises the stale-connection exception.\<close>

definition no_connection :: exn where
  "no_connection = ConnectionNotExistException ''should create connection first.''"

text \<open>\<open>time.sleep(n)\<close>.\<close>

definition sleep :: "nat \<Rightarrow> world \<Rightarrow> world" where
  "sleep n w = w\<lparr>trace := trace w @ [ESleep n]\<rparr>"

text \<open>\<open>os.makedirs(os.path.dirname(os.path.abspath(uri)), exist_ok=True)\<close>.\<close>

definition makedirs :: "string \<Rightarrow> world \<Rightarrow> exn option \<times> world" where
  "makedirs u w = env_call KMakedirs (EMakedirs u) w"

text \<open>\<open>os.path.join(a, b)\<close> of posixpath.\<close>

definition path_join :: "string \<Rightarrow> string \<Rightarrow> string" where
  "path_join a b =
     (if prefix ''/'' b then b
      else if a = [] \<or> suffix ''/'' a then a @ b
      else a @ ''/'' @ b)"

text \<open>\<open>connections.has_connection(alias)\<close>.\<close>

definition has_connection :: "string \<Rightarrow> world \<Rightarrow> (exn + bool) \<times> world" where
  "has_connection alias w =
     (case env_call KHasConnection (EHasConnection alias) w of
        (Some e, w1) \<Rightarrow> (Inl e, w1)
      | (None, w1) \<Rightarrow> (Inr (conns w1 alias \<noteq> None), w1))"

text \<open>\<open>utility.has_collection(name, using=alias)\<close>.\<close>

definition has_collection :: "string \<Rightarrow> string \<Rightarrow> world \<Rightarrow> (exn + bool) \<times> world" where
  "has_collection name alias w =
     (case env_call KHasCollection (EHasCollection name alias) w of
        (Some e, w1) \<Rightarrow> (Inl e, w1)
      | (None, w1) \<Rightarrow>
          (case conns w1 alias of
             None \<Rightarrow> (Inl no_connection, w1)
           | Some u \<Rightarrow> (Inr (dbs w1 u name \<noteq> None), w1)))"

text \<open>\<open>utility.drop_collection(name, using=alias)\<close>.\<close>

definition drop_collection :: "string \<Rightarrow> string \<Rightarrow> world \<Rightarrow> exn option \<times> world" where
  "drop_collection name alias w =
     (case env_call KDropCollection (EDropCollection name alias) w of
        (Some e, w1) \<Rightarrow> (Some e, w1)
      | (None, w1) \<Rightarrow>
          (case conns w1 alias of
             None \<Rightarrow> (Some no_connection, w1)
           | Some u \<Rightarrow> (None, w1\<lparr>dbs := (dbs w1)(u := (dbs w1 u)(name := None))\<rparr>)))"

text \<open>\<open>Collection(name, schema, using=alias)\<close>: the collection is created with the
  schema when it is absent (\<open>schema = None\<close>: the schema argument left out, and an absent
  collection is an error).\<close>

definition new_coll :: "field_schema list \<Rightarrow> coll" where
  "new_coll sch =
     \<lparr>c_schema = sch, c_entities = [], c_flushed = 0, c_index = None, c_loaded = False\<rparr>"

definition Collection ::
  "string \<Rightarrow> field_schema list option \<Rightarrow> string \<Rightarrow> world \<Rightarrow> (exn + string \<times> string) \<times> world" where
  "Collection name schema alias w =
     (case env_call KCollection (ECollection name alias) w of
        (Some e, w1) \<Rightarrow> (Inl e, w1)
      | (None, w1) \<Rightarrow>
          (case conns w1 alias of
             None \<Rightarrow> (Inl no_connection, w1)
           | Some u \<Rightarrow>
               (case dbs w1 u name of
                  Some c \<Rightarrow> (Inr (name, alias), w1)
                | None \<Rightarrow>
                    (case schema of
                       None \<Rightarrow> (Inl (OtherException ''SchemaNotReadyException''), w1)
                     | Some sch \<Rightarrow>
                         (Inr (name, alias),
                          w1\<lparr>dbs := (dbs w1)(u := (dbs w1 u)(name \<mapsto> new_coll sch))\<rparr>)))))"

text \<open>An operation on a collection handle \<open>(name, alias)\<close>: it needs the connection of
  the alias and the collection at that location.\<close>

definition on_collection ::
  "call \<Rightarrow> event \<Rightarrow> string \<times> string \<Rightarrow> (string \<Rightarrow> coll \<Rightarrow> world \<Rightarrow> (exn + 'a) \<times> world)
     \<Rightarrow> world \<Rightarrow> (exn + 'a) \<times> world" where
  "on_collection k ev h f w =
     (case env_call k ev w of
        (Some e, w1) \<Rightarrow> (Inl e, w1)
      | (None, w1) \<Rightarrow>
          (case conns w1 (snd h) of
             None \<Rightarrow> (Inl no_connection, w1)
           | Some u \<Rightarrow>
               (case dbs w1 u (fst h) of
                  None \<Rightarrow> (Inl (OtherException ''CollectionNotExistException''), w1)
                | Some c \<Rightarrow> f u c w1)))"

definition put_coll :: "string \<Rightarrow> string \<Rightarrow> coll \<Rightarrow> world \<Rightarrow> world" where
  "put_coll u name c w = w\<lparr>dbs := (dbs w)(u := (dbs w u)(name \<mapsto> c))\<rparr>"

text \<open>\<open>collection.create_index(field_name, index_params)\<close>.\<close>

definition create_index ::
  "string \<times> string \<Rightarrow> string \<Rightarrow> index_params \<Rightarrow> world \<Rightarrow> (exn + unit) \<times> world" where
  "create_index h field_name params w =
     on_collection KCreateIndex (ECreateIndex (fst h) (snd h)) h
       (\<lambda>u c w1. (Inr (), put_coll u (fst h) (c\<lparr>c_index := Some (field_name, params)\<rparr>) w1)) w"

text \<open>\<open>collection.load()\<close>.\<close>

definition load :: "string \<times> string \<Rightarrow> world \<Rightarrow> (exn + unit) \<times> world" where
  "load h w =
     on_collection KLoad (ELoad (fst h) (snd h)) h
       (\<lambda>u c w1. (Inr (), put_coll u (fst h) (c\<lparr>c_loaded := True\<rparr>) w1)) w"

text \<open>\<open>collection.insert([texts, metadata_json, embeddings])\<close>: one batch; the columns
  must have one length; the engine assigns the primary keys, in the order of the rows.\<close>

definition new_entities :: "int \<Rightarrow> string list \<Rightarrow> string list \<Rightarrow> vec list \<Rightarrow> entity list" where
  "new_entities pk texts metas embs =
     map (\<lambda>(i, t, m, v). \<lparr>e_id = pk + int i, e_text = t, e_metadata = m, e_embedding = v\<rparr>)
       (zip [0 ..< length texts] (zip texts (zip metas embs)))"

definition insert_entities ::
  "string \<times> string \<Rightarrow> string list \<Rightarrow> string list \<Rightarrow> vec list \<Rightarrow> world \<Rightarrow> (exn + int list) \<times> world" where
  "insert_entities h texts metas embs w =
     on_collection KInsert (EInsert (fst h) (snd h) texts metas embs) h
       (\<lambda>u c w1.
          if length metas \<noteq> length texts \<or> length embs \<noteq> length texts
          then (Inl (OtherException ''DataNotMatchException''), w1)
          else
            let es = new_entities (next_pk w1) texts metas embs
            in (Inr (map e_id es),
                (put_coll u (fst h) (c\<lparr>c_entities := c_entities c @ es\<rparr>) w1)
                  \<lparr>next_pk := next_pk w1 + int (length texts)\<rparr>)) w"

text \<open>\<open>collection.flush()\<close>: everything inserted so far is durable.\<close>

definition flush :: "string \<times> string \<Rightarrow> world \<Rightarrow> (exn + unit) \<times> world" where
  "flush h w =
     on_collection KFlush (EFlush (fst h) (snd h)) h
       (\<lambda>u c w1. (Inr (), put_coll u (fst h) (c\<lparr>c_flushed := length (c_entities c)\<rparr>) w1)) w"

text \<open>\<open>collection.search(data=[query], ..., limit=top_k, ...)\<close>: the approximate search
  is the engine's; its result is the oracle's.\<close>

definition search :: "string \<times> string \<Rightarrow> vec \<Rightarrow> int \<Rightarrow> world \<Rightarrow> (exn + hit list list) \<times> world" where
  "search h query top_k w =
     on_collection KSearch (ESearch (fst h) (snd h) query top_k) h
       (\<lambda>u c w1. (Inr (hits w (calls w KSearch)), w1)) w"

subsection \<open>The adapter\<close>

text \<open>The attributes of a \<open>StudyMaterialsStore\<close>; \<open>collection\<close> is the handle
  \<open>(name, alias)\<close> that \<open>_setup_collection\<close> stores.\<close>

record store =
  collection_name :: string
  dimension :: int
  uri :: string
  token :: "string option"
  connection_alias :: string
  workspace_root :: string
  collection :: "(string \<times> string) option"

text \<open>The test of a session-scoped location:
  \<open>"tmp" in self.uri or self.uri.startswith("./")\<close>.\<close>

definition session_scoped :: "string \<Rightarrow> bool" where
  "session_scoped u = (sublist ''tmp'' u \<or> prefix ''./'' u)"

definition max_retries :: nat where
  "max_retries = 3"

text \<open>One pass through the \<open>try\<close> block of \<open>_connect\<close>: \<open>disconnect\<close> (whatever it
  raises is dropped), \<open>connect\<close>, \<open>list_collections\<close>. The three calls of the \<open>k\<close>-th
  attempt are the \<open>k\<close>-th calls of the oracle.\<close>

definition attempt :: "store \<Rightarrow> world \<Rightarrow> exn option \<times> world" where
  "attempt self w =
     (let alias = connection_alias self;
          k = calls w KConnect;
          w1 = w\<lparr>trace := trace w @ [EDisconnect alias],
                 conns := (case fault w KDisconnect k of
                             None \<Rightarrow> (conns w)(alias := None)
                           | Some e \<Rightarrow> conns w)\<rparr>;
          w2 = w1\<lparr>calls := (calls w1)(KConnect := Suc k),
                  trace := trace w1 @ [EConnect alias (uri self)]\<rparr>
      in case fault w KConnect k of
           Some e \<Rightarrow> (Some e, w2)
         | None \<Rightarrow>
             (let w3 = w2\<lparr>conns := (conns w2)(alias \<mapsto> uri self),
                          trace := trace w2 @ [EListCollections alias]\<rparr>
              in (fault w KListCollections k, w3)))"

text \<open>The new location of the fallback:
  \<open>os.path.join(self.workspace_root, f"tmp/sa_{unique_id}_{timestamp}.db")\<close> with
  \<open>unique_id = str(uuid.uuid4())[:8]\<close> and \<open>timestamp = str(int(time.time()))[-6:]\<close>.\<close>

definition fresh_uri :: "store \<Rightarrow> world \<Rightarrow> string \<times> world" where
  "fresh_uri self w =
     (let unique_id = py_slice (uuid4 w (uuid_calls w)) 0 8;
          t = clock w (clock_calls w);
          timestamp = py_slice t (- 6) (int (length t))
      in (path_join (workspace_root self) (''tmp/sa_'' @ unique_id @ ''_'' @ timestamp @ ''.db''),
          w\<lparr>regens := Suc (regens w), uuid_calls := Suc (uuid_calls w),
            clock_calls := Suc (clock_calls w)\<rparr>))"

text \<open>The \<open>while\<close> loop of \<open>_connect\<close>, from a value of \<open>retry_count\<close>. The loop need not
  end: not returning is \<open>None\<close>. \<open>Inl e\<close> is the exception the method raises.\<close>

partial_function (option) connect_loop ::
  "store \<Rightarrow> nat \<Rightarrow> world \<Rightarrow> ((exn + unit) \<times> store \<times> world) option" where
  "connect_loop self retry_count w =
     (if retry_count < max_retries then
        (case attempt self w of
           (None, w1) \<Rightarrow> Some (Inr (), self, w1)
         | (Some e, w1) \<Rightarrow>
             (let w2 = sleep 1 w1 in
              if Suc retry_count \<ge> max_retries then
                (if session_scoped (uri self) then
                   (case fresh_uri self w2 of
                      (u, w3) \<Rightarrow>
                        (case makedirs u w3 of
                           (Some e', w4) \<Rightarrow> Some (Inl e', self\<lparr>uri := u\<rparr>, w4)
                         | (None, w4) \<Rightarrow> connect_loop (self\<lparr>uri := u\<rparr>) 0 w4))
                 else Some (Inl (ConnectionNotExistException
                               (''Failed to connect to Milvus after 3 attempts: '' @ exn_str e)),
                            self, w2))
              else connect_loop self (Suc retry_count) w2))
      else Some (Inr (), self, w))"

declare connect_loop.simps [code]

definition connect :: "store \<Rightarrow> world \<Rightarrow> ((exn + unit) \<times> store \<times> world) option" where
  "connect self w = connect_loop self 0 w"

text \<open>The schema and the index of \<open>_setup_collection\<close>.\<close>

definition fixed_schema :: "int \<Rightarrow> field_schema list" where
  "fixed_schema d =
     [Int64Field ''id'' True True,
      VarcharField ''text'' 65535,
      VarcharField ''metadata'' 10000,
      FloatVectorField ''embedding'' d]"

definition fixed_index :: index_params where
  "fixed_index = \<lparr>metric_type = ''L2'', index_type = ''IVF_FLAT'', nlist = 1024\<rparr>"

text \<open>The body of \<open>_setup_collection\<close> behind the connection check. Its handler prints
  and raises again, so an exception of any call is the exception of the method.\<close>

definition ensure_collection :: "store \<Rightarrow> world \<Rightarrow> (exn + unit) \<times> store \<times> world" where
  "ensure_collection self w =
     (let name = collection_name self; alias = connection_alias self in
      case has_collection name alias w of
        (Inl e, w1) \<Rightarrow> (Inl e, self, w1)
      | (Inr present, w1) \<Rightarrow>
          if \<not> present then
            (case Collection name (Some (fixed_schema (dimension self))) alias w1 of
               (Inl e, w2) \<Rightarrow> (Inl e, self, w2)
             | (Inr h, w2) \<Rightarrow>
                 (let self' = self\<lparr>collection := Some h\<rparr> in
                  case create_index h ''embedding'' fixed_index w2 of
                    (Inl e, w3) \<Rightarrow> (Inl e, self', w3)
                  | (Inr u, w3) \<Rightarrow>
                      (case load h w3 of
                         (Inl e, w4) \<Rightarrow> (Inl e, self', w4)
                       | (Inr u', w4) \<Rightarrow> (Inr (), self', w4))))
          else
            (case Collection name None alias w1 of
               (Inl e, w2) \<Rightarrow> (Inl e, self, w2)
             | (Inr h, w2) \<Rightarrow>
                 (let self' = self\<lparr>collection := Some h\<rparr> in
                  case load h w2 of
                    (Inl e, w3) \<Rightarrow> (Inl e, self', w3)
                  | (Inr u, w3) \<Rightarrow> (Inr (), self', w3))))"

definition setup_collection :: "store \<Rightarrow> world \<Rightarrow> ((exn + unit) \<times> store \<times> world) option" where
  "setup_collection self w =
     (case has_connection (connection_alias self) w of
        (Inl e, w1) \<Rightarrow> Some (Inl e, self, w1)
      | (Inr is_connected, w1) \<Rightarrow>
          if \<not> is_connected then
            (case connect self w1 of
               None \<Rightarrow> None
             | Some (Inl e, self1, w2) \<Rightarrow> Some (Inl e, self1, w2)
             | Some (Inr u, self1, w2) \<Rightarrow> Some (ensure_collection self1 w2))
          else Some (ensure_collection self w1))"

text \<open>The handler of the stale connection in \<open>store_vectors\<close> and \<open>search_vectors\<close>:
  \<open>self._connect(); self._setup_collection()\<close>.\<close>

definition reconnect :: "store \<Rightarrow> world \<Rightarrow> ((exn + unit) \<times> store \<times> world) option" where
  "reconnect self w =
     (case connect self w of
        None \<Rightarrow> None
      | Some (Inl e, self1, w1) \<Rightarrow> Some (Inl e, self1, w1)
      | Some (Inr u, self1, w1) \<Rightarrow> setup_collection self1 w1)"

text \<open>The \<open>try\<close> block of \<open>store_vectors\<close>; \<open>dumps\<close> is \<open>json.dumps\<close>, taken to return
  a string for every mapping it is given, and \<open>metadata\<close> is already the list of mappings
  (see \<open>store_vectors\<close> for the default). An adapter without the attribute \<open>collection\<close>
  raises \<open>AttributeError\<close>.\<close>

definition store_body ::
  "('m \<Rightarrow> string) \<Rightarrow> store \<Rightarrow> string list \<Rightarrow> vec list \<Rightarrow> 'm list \<Rightarrow> world
     \<Rightarrow> (exn + int list) \<times> world" where
  "store_body dumps self texts embeddings metadata w =
     (let metadata_json = map dumps metadata in
      case collection self of
        None \<Rightarrow> (Inl (OtherException ''AttributeError''), w)
      | Some h \<Rightarrow>
          (case insert_entities h texts metadata_json embeddings w of
             (Inl e, w1) \<Rightarrow> (Inl e, w1)
           | (Inr primary_keys, w1) \<Rightarrow>
               (case flush h w1 of
                  (Inl e, w2) \<Rightarrow> (Inl e, w2)
                | (Inr u, w2) \<Rightarrow> (Inr primary_keys, w2))))"

text \<open>\<open>store_vectors\<close>, with \<open>metadata\<close> given. The handler of the stale connection
  reconnects and calls the method again; every other exception is raised again.\<close>

partial_function (option) store_vectors_with ::
  "('m \<Rightarrow> string) \<Rightarrow> store \<Rightarrow> string list \<Rightarrow> vec list \<Rightarrow> 'm list \<Rightarrow> world
     \<Rightarrow> ((exn + int list) \<times> store \<times> world) option" where
  "store_vectors_with dumps self texts embeddings metadata w =
     (case store_body dumps self texts embeddings metadata w of
        (Inr primary_keys, w1) \<Rightarrow> Some (Inr primary_keys, self, w1)
      | (Inl e, w1) \<Rightarrow>
          if is_stale e then
            (case reconnect self w1 of
               None \<Rightarrow> None
             | Some (Inl e', self1, w2) \<Rightarrow> Some (Inl e', self1, w2)
             | Some (Inr u, self1, w2) \<Rightarrow>
                 store_vectors_with dumps self1 texts embeddings metadata w2)
          else Some (Inl e, self, w1))"

declare store_vectors_with.simps [code]

text \<open>\<open>store_vectors(texts, embeddings, metadata=None)\<close>: \<open>empty_dict\<close> is the empty mapping
  \<open>{}\<close>. The default is bound before the \<open>try\<close> block ends, so the retry passes it on.\<close>

definition store_vectors ::
  "('m \<Rightarrow> string) \<Rightarrow> 'm \<Rightarrow> store \<Rightarrow> string list \<Rightarrow> vec list \<Rightarrow> 'm list option \<Rightarrow> world
     \<Rightarrow> ((exn + int list) \<times> store \<times> world) option" where
  "store_vectors dumps empty_dict self texts embeddings metadata w =
     store_vectors_with dumps self texts embeddings
       (case metadata of None \<Rightarrow> replicate (length texts) empty_dict | Some ms \<Rightarrow> ms) w"

text \<open>The \<open>try\<close> block of \<open>search_vectors\<close>: \<open>results[0]\<close> raises on an empty result.\<close>

definition search_body ::
  "store \<Rightarrow> vec \<Rightarrow> int \<Rightarrow> world \<Rightarrow> (exn + hit list) \<times> world" where
  "search_body self query_embedding top_k w =
     (case collection self of
        None \<Rightarrow> (Inl (OtherException ''AttributeError''), w)
      | Some h \<Rightarrow>
          (case search h query_embedding top_k w of
             (Inl e, w1) \<Rightarrow> (Inl e, w1)
           | (Inr results, w1) \<Rightarrow>
               (case results of
                  [] \<Rightarrow> (Inl (OtherException ''IndexError''), w1)
                | r # rs \<Rightarrow> (Inr r, w1))))"

partial_function (option) search_vectors ::
  "store \<Rightarrow> vec \<Rightarrow> int \<Rightarrow> world \<Rightarrow> ((exn + hit list) \<times> store \<times> world) option" where
  "search_vectors self query_embedding top_k w =
     (case search_body self query_embedding top_k w of
        (Inr found, w1) \<Rightarrow> Some (Inr found, self, w1)
      | (Inl e, w1) \<Rightarrow>
          if is_stale e then
            (case reconnect self w1 of
               None \<Rightarrow> None
             | Some (Inl e', self1, w2) \<Rightarrow> Some (Inl e', self1, w2)
             | Some (Inr u, self1, w2) \<Rightarrow> search_vectors self1 query_embedding top_k w2)
          else Some (Inl e, self, w1))"

declare search_vectors.simps [code]

text \<open>\<open>drop\<close>: everything happens under the test that the collection is there.\<close>

definition drop_store :: "store \<Rightarrow> world \<Rightarrow> ((exn + unit) \<times> store \<times> world) option" where
  "drop_store self w =
     (case has_collection (collection_name self) (connection_alias self) w of
        (Inl e, w1) \<Rightarrow> Some (Inl e, self, w1)
      | (Inr present, w1) \<Rightarrow>
          if present then
            (case drop_collection (collection_name self) (connection_alias self) w1 of
               (Some e, w2) \<Rightarrow> Some (Inl e, self, w2)
             | (None, w2) \<Rightarrow> reconnect self w2)
          else Some (Inr (), self, w1))"

subsection \<open>Notions to state the behaviour of the connection routine\<close>

text \<open>The \<open>k\<close>-th connection attempt fails: \<open>connect\<close> or \<open>list_collections\<close> raises.\<close>

definition attempt_fails :: "world \<Rightarrow> nat \<Rightarrow> bool" where
  "attempt_fails w k = (fault w KConnect k \<noteq> None \<or> fault w KListCollections k \<noteq> None)"

text \<open>The calls of the \<open>k\<close>-th attempt, as they appear in the trace.\<close>

definition attempt_events :: "store \<Rightarrow> world \<Rightarrow> nat \<Rightarrow> event list" where
  "attempt_events self w k =
     [EDisconnect (connection_alias self), EConnect (connection_alias self) (uri self)]
     @ (if fault w KConnect k = None then [EListCollections (connection_alias self)] else [])"

text \<open>The world after a failed attempt: the attempt, then \<open>time.sleep(1)\<close>.\<close>

definition after_failure :: "store \<Rightarrow> world \<Rightarrow> world" where
  "after_failure self w = sleep 1 (snd (attempt self w))"

text \<open>Two adapters that differ at most in their location.\<close>

definition same_but_uri :: "store \<Rightarrow> store \<Rightarrow> bool" where
  "same_but_uri s s' = (s' = s\<lparr>uri := uri s'\<rparr>)"

text \<open>The fallback of \<open>_connect\<close> when it succeeds: a new location, whose directory
  is created.\<close>

definition regenerate :: "store \<Rightarrow> world \<Rightarrow> store \<times> world" where
  "regenerate self w =
     (case fresh_uri self w of (u, w3) \<Rightarrow> (self\<lparr>uri := u\<rparr>, snd (makedirs u w3)))"

text \<open>Three failed attempts, then the fallback.\<close>

definition failed_round :: "store \<Rightarrow> world \<Rightarrow> store \<times> world" where
  "failed_round self w =
     regenerate self (after_failure self (after_failure self (after_failure self w)))"

text \<open>The adapter is set up in a world: it holds the handle of its collection, its alias
  is connected to its location, and the collection is there.\<close>

definition ready :: "store \<Rightarrow> world \<Rightarrow> bool" where
  "ready self w =
     (collection self = Some (collection_name self, connection_alias self)
      \<and> conns w (connection_alias self) = Some (uri self)
      \<and> dbs w (uri self) (collection_name self) \<noteq> None)"

text \<open>No call other than \<open>insert\<close> and \<open>search\<close> raises.\<close>

definition calm :: "world \<Rightarrow> bool" where
  "calm w = (\<forall>k i. k \<noteq> KInsert \<and> k \<noteq> KSearch \<longrightarrow> fault w k i = None)"



subsection \<open>Example adapters and worlds\<close>

text \<open>A world without connections and collections, in which no call raises.\<close>

definition quiet_world :: world where
  "quiet_world =
     \<lparr>conns = Map.empty, dbs = (\<lambda>u. Map.empty), next_pk = 1, calls = (\<lambda>k. 0),
      fault = (\<lambda>k i. None), regens = 0,
      uuid4 = (\<lambda>k. ''0f8fad5b-d9cb-469f-a165-70867728950e''), uuid_calls = 0,
      clock = (\<lambda>k. ''1730678400''), clock_calls = 0,
      hits = (\<lambda>k. [[]]), workspace = ''/app'', trace = []\<rparr>"

text \<open>The world in which the first \<open>n\<close> connection attempts are refused.\<close>

definition refuse_first :: "nat \<Rightarrow> world" where
  "refuse_first n =
     quiet_world\<lparr>fault := (\<lambda>k i. if k = KConnect \<and> i < n
                                  then Some (OtherException ''refused'') else None)\<rparr>"

text \<open>The world in which every connection attempt is refused.\<close>

definition refuse_all :: world where
  "refuse_all =
     quiet_world\<lparr>fault := (\<lambda>k i. if k = KConnect
                                  then Some (OtherException ''refused'') else None)\<rparr>"

text \<open>An adapter at a session-scoped location, as \<open>setup_vector_store\<close> makes it, and
  one at a remote endpoint.\<close>

definition local_store :: store where
  "local_store =
     \<lparr>collection_name = ''study_materials'', dimension = 2, uri = ''tmp/sa_1a2b3c4d_678400.db'',
      token = None, connection_alias = ''sa_0a1b2c'', workspace_root = ''/app'',
      collection = None\<rparr>"

definition remote_store :: store where
  "remote_store = local_store\<lparr>uri := ''http://localhost:19530''\<rparr>"

text \<open>The adapter after its constructor, and a world in which it is set up.\<close>

definition ready_store :: store where
  "ready_store = local_store\<lparr>collection := Some (''study_materials'', ''sa_0a1b2c'')\<rparr>"

definition loaded_coll :: coll where
  "loaded_coll =
     \<lparr>c_schema = fixed_schema 2, c_entities = [], c_flushed = 0,
      c_index = Some (''embedding'', fixed_index), c_loaded = True\<rparr>"

definition ready_world :: world where
  "ready_world =
     quiet_world\<lparr>conns := [''sa_0a1b2c'' \<mapsto> ''tmp/sa_1a2b3c4d_678400.db''],
                 dbs := (\<lambda>u. if u = ''tmp/sa_1a2b3c4d_678400.db''
                             then [''study_materials'' \<mapsto> loaded_coll] else Map.empty)\<rparr>"

text \<open>That world, with the first \<open>n\<close> calls of kind \<open>k\<close> reporting the stale connection.\<close>

definition stale_world :: "call \<Rightarrow> nat \<Rightarrow> world" where
  "stale_world k n =
     ready_world\<lparr>fault := (\<lambda>k' i. if k' = k \<and> i < n
                                   then Some (ConnectionNotExistException
                                                ''should create connection first.'')
                                   else None)\<rparr>"



section \<open>The assistant (agents.py)\<close>

subsection \<open>Python strings and values\<close>

definition nl :: string where
  "nl = [CHR 0x0A]"

text \<open>\<open>sep.join(xs)\<close>.\<close>

fun py_join :: "string \<Rightarrow> string list \<Rightarrow> string" where
  "py_join sep [] = []"
| "py_join sep [x] = x"
| "py_join sep (x # y # r) = x @ sep @ py_join sep (y # r)"

text \<open>\<open>str(i)\<close> of an integer, as an f-string prints it.\<close>

fun digits :: "nat \<Rightarrow> string" where
  "digits n =
     (if n < 10 then [''0123456789'' ! n]
      else digits (n div 10) @ [''0123456789'' ! (n mod 10)])"

definition str_int :: "int \<Rightarrow> string" where
  "str_int i = (if i < 0 then ''-'' @ digits (nat (- i)) else digits (nat i))"

text \<open>The first occurrence of \<open>sep\<close>: what is before it and what is behind it.\<close>

fun find_sub :: "string \<Rightarrow> string \<Rightarrow> (string \<times> string) option" where
  "find_sub sep [] = (if sep = [] then Some ([], []) else None)"
| "find_sub sep (x # xs) =
     (if prefix sep (x # xs) then Some ([], drop (length sep) (x # xs))
      else map_option (\<lambda>(a, b). (x # a, b)) (find_sub sep xs))"

text \<open>\<open>s.split(sep)[0]\<close>.\<close>

definition first_piece :: "string \<Rightarrow> string \<Rightarrow> string" where
  "first_piece sep s = (case find_sub sep s of None \<Rightarrow> s | Some (a, b) \<Rightarrow> a)"

text \<open>\<open>s.strip()\<close>: the characters that \<open>str.isspace\<close> accepts among the characters a
  \<open>char\<close> stands for, the code points up to \<open>0xFF\<close>: the white space and the separators of
  ASCII, \<open>U+0085\<close> (next line) and \<open>U+00A0\<close> (no-break space).\<close>

definition is_space :: "char \<Rightarrow> bool" where
  "is_space c =
     (c \<in> set [CHR 0x09, CHR 0x0A, CHR 0x0B, CHR 0x0C, CHR 0x0D,
                CHR 0x1C, CHR 0x1D, CHR 0x1E, CHR 0x1F, CHR 0x20,
                CHR 0x85, CHR 0xA0])"

definition py_strip :: "string \<Rightarrow> string" where
  "py_strip s = rev (dropWhile is_space (rev (dropWhile is_space s)))"

text \<open>The values \<open>json.loads\<close> returns, and the dictionaries the methods build.\<close>

datatype json =
    JNull
  | JBool bool
  | JInt int
  | JFloat real
  | JStr string
  | JList "json list"
  | JDict "(string \<times> json) list"

subsection \<open>The OpenAI client\<close>

text \<open>The client is an oracle: the outcome of the \<open>k\<close>-th embedding request and of the
  \<open>k\<close>-th chat completion (\<open>response.choices[0].message.content\<close>, or the exception). The
  chat requests are logged.\<close>

record chat_request =
  cr_model :: string
  cr_messages :: "(string \<times> string) list"
  cr_temperature :: real

record openai =
  embed_out :: "nat \<Rightarrow> exn + vec"
  embed_calls :: nat
  chat_out :: "nat \<Rightarrow> exn + string"
  chat_calls :: nat
  requests :: "chat_request list"

text \<open>\<open>get_embedding\<close>: its handler prints and raises again.\<close>

definition get_embedding :: "string \<Rightarrow> openai \<Rightarrow> (exn + vec) \<times> openai" where
  "get_embedding text ai =
     (embed_out ai (embed_calls ai), ai\<lparr>embed_calls := Suc (embed_calls ai)\<rparr>)"

text \<open>\<open>self.client.chat.completions.create(model=self.model, messages=..., temperature=...)\<close>
  with \<open>self.model = "gpt-4o"\<close>.\<close>

definition chat_completion ::
  "(string \<times> string) list \<Rightarrow> real \<Rightarrow> openai \<Rightarrow> (exn + string) \<times> openai" where
  "chat_completion messages temperature ai =
     (chat_out ai (chat_calls ai),
      ai\<lparr>chat_calls := Suc (chat_calls ai),
         requests := requests ai
           @ [\<lparr>cr_model = ''gpt-4o'', cr_messages = messages, cr_temperature = temperature\<rparr>]\<rparr>)"

subsection \<open>Creating the adapter\<close>

text \<open>\<open>cleanup_old_dbs\<close>: what it deletes is not modelled; listing the directory may
  raise.\<close>

definition cleanup_old_dbs :: "world \<Rightarrow> exn option \<times> world" where
  "cleanup_old_dbs w = env_call KCleanup ECleanup w"

text \<open>\<open>f"tmp/sa_{unique_id}_{timestamp}.db"\<close> under \<open>base\<close>, from a new uuid and the
  clock.\<close>

definition new_db_name :: "world \<Rightarrow> string \<times> world" where
  "new_db_name w =
     (let unique_id = py_slice (uuid4 w (uuid_calls w)) 0 8;
          t = clock w (clock_calls w);
          timestamp = py_slice t (- 6) (int (length t))
      in (''sa_'' @ unique_id @ ''_'' @ timestamp @ ''.db'',
          w\<lparr>uuid_calls := Suc (uuid_calls w), clock_calls := Suc (clock_calls w)\<rparr>))"

text \<open>\<open>StudyMaterialsStore.__init__\<close>: \<open>Inl e\<close> when the constructor raises.\<close>

definition new_store ::
  "string \<Rightarrow> int \<Rightarrow> string option \<Rightarrow> string option \<Rightarrow> world \<Rightarrow> ((exn + store) \<times> world) option" where
  "new_store coll_name d uri_arg tok w =
     (let root = workspace w in
      case (case uri_arg of
              Some u \<Rightarrow> (None, u, w)
            | None \<Rightarrow>
                (case new_db_name w of
                   (name, w0) \<Rightarrow>
                     (case env_call KMakedirs (EMakedirs (path_join root ''tmp'')) w0 of
                        (r, w1) \<Rightarrow> (r, path_join (path_join root ''tmp'') name, w1)))) of
        (Some e, u, w1) \<Rightarrow> Some (Inl e, w1)
      | (None, u, w1) \<Rightarrow>
          (let ali = ''sa_'' @ py_slice (filter (\<lambda>c. c \<noteq> CHR ''-'') (uuid4 w1 (uuid_calls w1))) 0 6;
               w2 = w1\<lparr>uuid_calls := Suc (uuid_calls w1)\<rparr>;
               self = \<lparr>collection_name = coll_name, dimension = d, uri = u, token = tok,
                       connection_alias = ali, workspace_root = root, collection = None\<rparr>
           in case cleanup_old_dbs w2 of
                (Some e, w3) \<Rightarrow> Some (Inl e, w3)
              | (None, w3) \<Rightarrow>
                  (case (if session_scoped u then makedirs u w3 else (None, w3)) of
                     (Some e, w4) \<Rightarrow> Some (Inl e, w4)
                   | (None, w4) \<Rightarrow>
                       (case connect self w4 of
                          None \<Rightarrow> None
                        | Some (Inl e, s1, w5) \<Rightarrow> Some (Inl e, w5)
                        | Some (Inr x, s1, w5) \<Rightarrow>
                            (case setup_collection s1 w5 of
                               None \<Rightarrow> None
                             | Some (Inl e, s2, w6) \<Rightarrow> Some (Inl e, w6)
                             | Some (Inr y, s2, w6) \<Rightarrow> Some (Inr s2, w6))))))"

subsection \<open>The assistant\<close>

record turn =
  t_user :: string
  t_assistant :: string

record study_assistant =
  conversation_history :: "turn list"
  vector_store :: store

text \<open>\<open>setup_vector_store\<close>: a second adapter is tried when creating the first raises;
  what the second raises is raised (\<open>Some e\<close>).\<close>

definition setup_vector_store ::
  "study_assistant \<Rightarrow> world \<Rightarrow> (exn option \<times> study_assistant \<times> world) option" where
  "setup_vector_store a w =
     (case new_db_name w of
        (name, w1) \<Rightarrow>
          (case new_store ''study_materials'' 1536 (Some (''tmp/'' @ name)) None w1 of
             None \<Rightarrow> None
           | Some (Inr s, w2) \<Rightarrow> Some (None, a\<lparr>vector_store := s\<rparr>, w2)
           | Some (Inl e, w2) \<Rightarrow>
               (case new_db_name w2 of
                  (name', w3) \<Rightarrow>
                    (case new_store ''study_materials'' 1536 (Some (''tmp/'' @ name')) None w3 of
                       None \<Rightarrow> None
                     | Some (Inr s, w4) \<Rightarrow> Some (None, a\<lparr>vector_store := s\<rparr>, w4)
                     | Some (Inl e', w4) \<Rightarrow> Some (Some e', a, w4)))))"

text \<open>The handlers of \<open>search_materials\<close>, for an exception \<open>e\<close> of its \<open>try\<close> block: the
  stale connection makes a new adapter and searches once more, outside any handler;
  every other exception is printed and raised again.\<close>

definition search_handler ::
  "exn \<Rightarrow> string \<Rightarrow> int \<Rightarrow> study_assistant \<Rightarrow> world \<Rightarrow> openai
     \<Rightarrow> ((exn + hit list) \<times> study_assistant \<times> world \<times> openai) option" where
  "search_handler e query top_k a w ai =
     (if is_stale e then
        (case setup_vector_store a w of
           None \<Rightarrow> None
         | Some (Some e', a1, w1) \<Rightarrow> Some (Inl e', a1, w1, ai)
         | Some (None, a1, w1) \<Rightarrow>
             (case get_embedding query ai of
                (Inl e', ai1) \<Rightarrow> Some (Inl e', a1, w1, ai1)
              | (Inr query_embedding, ai1) \<Rightarrow>
                  (case search_vectors (vector_store a1) query_embedding top_k w1 of
                     None \<Rightarrow> None
                   | Some (r, s, w2) \<Rightarrow> Some (r, a1\<lparr>vector_store := s\<rparr>, w2, ai1))))
      else Some (Inl e, a, w, ai))"

text \<open>\<open>search_materials(query, top_k)\<close>. The adapter is an object: what \<open>search_vectors\<close>
  changes in it is kept.\<close>

definition search_materials ::
  "string \<Rightarrow> int \<Rightarrow> study_assistant \<Rightarrow> world \<Rightarrow> openai
     \<Rightarrow> ((exn + hit list) \<times> study_assistant \<times> world \<times> openai) option" where
  "search_materials query top_k a w ai =
     (case get_embedding query ai of
        (Inl e, ai1) \<Rightarrow> search_handler e query top_k a w ai1
      | (Inr query_embedding, ai1) \<Rightarrow>
          (case search_vectors (vector_store a) query_embedding top_k w of
             None \<Rightarrow> None
           | Some (Inr found, s, w1) \<Rightarrow> Some (Inr found, a\<lparr>vector_store := s\<rparr>, w1, ai1)
           | Some (Inl e, s, w1) \<Rightarrow> search_handler e query top_k (a\<lparr>vector_store := s\<rparr>) w1 ai1))"

text \<open>\<open>"\n".join([item["text"] for item in relevant_materials])\<close>.\<close>

definition context_of :: "hit list \<Rightarrow> string" where
  "context_of relevant_materials = py_join nl (map h_text relevant_materials)"

text \<open>The history of the prompt: the turns of \<open>self.conversation_history[-5:]\<close>.\<close>

definition recent_turns :: "turn list \<Rightarrow> turn list" where
  "recent_turns h = py_slice h (- 5) (int (length h))"

definition history_of :: "turn list \<Rightarrow> string" where
  "history_of h =
     py_join nl (map (\<lambda>msg. ''Student: '' @ t_user msg @ nl @ ''Assistant: '' @ t_assistant msg)
                   (recent_turns h))"

definition response_messages :: "string \<Rightarrow> string \<Rightarrow> string \<Rightarrow> (string \<times> string) list" where
  "response_messages context history query =
     [(''system'', ''You are a helpful study assistant. Use the provided context to answer questions accurately and clearly.''),
      (''system'', ''Study materials:'' @ nl @ context),
      (''system'', ''Previous conversation:'' @ nl @ history),
      (''user'', query)]"

text \<open>The \<open>try\<close> block of \<open>generate_response\<close>.\<close>

definition response_body ::
  "string \<Rightarrow> study_assistant \<Rightarrow> world \<Rightarrow> openai
     \<Rightarrow> ((exn + string) \<times> study_assistant \<times> world \<times> openai) option" where
  "response_body query a w ai =
     (case search_materials query 5 a w ai of
        None \<Rightarrow> None
      | Some (Inl e, a1, w1, ai1) \<Rightarrow> Some (Inl e, a1, w1, ai1)
      | Some (Inr relevant_materials, a1, w1, ai1) \<Rightarrow>
          (let context = context_of relevant_materials;
               history = history_of (conversation_history a1)
           in case chat_completion (response_messages context history query) (7 / 10) ai1 of
                (Inl e, ai2) \<Rightarrow> Some (Inl e, a1, w1, ai2)
              | (Inr content, ai2) \<Rightarrow>
                  Some (Inr content,
                        a1\<lparr>conversation_history :=
                             conversation_history a1 @ [\<lparr>t_user = query, t_assistant = content\<rparr>]\<rparr>,
                        w1, ai2)))"

text \<open>What \<open>generate_response\<close> returns is a string; the model keeps which \<open>return\<close>
  produced it: the reply of the chat completion, or the error text of the last handler.\<close>

datatype answer = Reply string | Failure string

fun answer_text :: "answer \<Rightarrow> string" where
  "answer_text (Reply s) = s"
| "answer_text (Failure s) = s"

text \<open>\<open>generate_response\<close>. The handler of the stale connection makes a new adapter
  (what that raises is raised: \<open>Inl\<close>) and calls the method again.\<close>

partial_function (option) generate_response ::
  "string \<Rightarrow> study_assistant \<Rightarrow> world \<Rightarrow> openai
     \<Rightarrow> ((exn + answer) \<times> study_assistant \<times> world \<times> openai) option" where
  "generate_response query a w ai =
     (case response_body query a w ai of
        None \<Rightarrow> None
      | Some (Inr content, a1, w1, ai1) \<Rightarrow> Some (Inr (Reply content), a1, w1, ai1)
      | Some (Inl e, a1, w1, ai1) \<Rightarrow>
          if is_stale e then
            (case setup_vector_store a1 w1 of
               None \<Rightarrow> None
             | Some (Some e', a2, w2) \<Rightarrow> Some (Inl e', a2, w2, ai1)
             | Some (None, a2, w2) \<Rightarrow> generate_response query a2 w2 ai1)
          else Some (Inr (Failure (''Error: '' @ exn_str e)), a1, w1, ai1))"

declare generate_response.simps [code]

text \<open>\<open>get_conversation_history\<close>.\<close>

definition get_conversation_history :: "study_assistant \<Rightarrow> turn list" where
  "get_conversation_history a = conversation_history a"

subsection \<open>Flashcards and quizzes\<close>

definition fence :: string where
  "fence = [CHR 0x60, CHR 0x60, CHR 0x60]"

text \<open>\<open>content.split(sep)[1].split("```")[0].strip()\<close>, for a \<open>sep\<close> that occurs in
  \<open>content\<close>.\<close>

definition between_fences :: "string \<Rightarrow> string \<Rightarrow> exn + string" where
  "between_fences sep content =
     (case find_sub sep content of
        None \<Rightarrow> Inl (OtherException ''IndexError'')
      | Some (before, rest) \<Rightarrow> Inr (py_strip (first_piece fence (first_piece sep rest))))"

text \<open>The stripping of a fenced code block.\<close>

definition strip_fence :: "string \<Rightarrow> exn + string" where
  "strip_fence content =
     (if sublist (fence @ ''json'') content then between_fences (fence @ ''json'') content
      else if sublist fence content then between_fences fence content
      else Inr content)"

definition flashcards_prompt :: "int \<Rightarrow> string \<Rightarrow> string \<Rightarrow> string" where
  "flashcards_prompt count topic context =
     nl @ ''            Create '' @ str_int count @ '' flashcards about '' @ topic
     @ '' based on the study materials.'' @ nl
     @ ''            Each flashcard should have a question and answer.'' @ nl
     @ ''            '' @ nl
     @ ''            Study materials:'' @ nl
     @ ''            '' @ context @ nl
     @ ''            '' @ nl
     @ ''            Return a JSON array of objects with 'question' and 'answer' fields.'' @ nl
     @ ''            Questions should be challenging but fair, answers concise but complete.'' @ nl
     @ ''            ''"

definition quiz_prompt :: "int \<Rightarrow> string \<Rightarrow> string \<Rightarrow> string" where
  "quiz_prompt num_questions topic context =
     nl @ ''            Create a quiz with '' @ str_int num_questions
     @ '' multiple-choice questions about '' @ topic @ ''.'' @ nl
     @ ''            Each question should have 4 options with one correct answer.'' @ nl
     @ ''            '' @ nl
     @ ''            Study materials:'' @ nl
     @ ''            '' @ context @ nl
     @ ''            '' @ nl
     @ ''            Return a JSON array of objects with:'' @ nl
     @ ''            - 'question': question text'' @ nl
     @ ''            - 'options': array of 4 answers'' @ nl
     @ ''            - 'correct_index': index (0-3) of correct answer'' @ nl
     @ ''            - 'explanation': brief explanation'' @ nl
     @ ''            '' @ nl
     @ ''            Questions should be challenging but fair.'' @ nl
     @ ''            ''"

definition flashcards_system :: string where
  "flashcards_system = ''You are a study assistant creating effective flashcards.''"

definition quiz_system :: string where
  "quiz_system = ''You are a study assistant creating effective quizzes.''"

text \<open>The \<open>try\<close> block that \<open>generate_flashcards\<close> and \<open>generate_quiz\<close> share but for the
  prompt and the system message; \<open>loads\<close> is \<open>json.loads\<close>, with \<open>None\<close> for the
  \<open>JSONDecodeError\<close> it raises.\<close>

definition generation_body ::
  "(string \<Rightarrow> json option) \<Rightarrow> string \<Rightarrow> (string \<Rightarrow> string) \<Rightarrow> string
     \<Rightarrow> study_assistant \<Rightarrow> world \<Rightarrow> openai
     \<Rightarrow> ((exn + json) \<times> study_assistant \<times> world \<times> openai) option" where
  "generation_body loads system_message prompt_of topic a w ai =
     (case search_materials topic 5 a w ai of
        None \<Rightarrow> None
      | Some (Inl e, a1, w1, ai1) \<Rightarrow> Some (Inl e, a1, w1, ai1)
      | Some (Inr relevant_materials, a1, w1, ai1) \<Rightarrow>
          (case chat_completion
                  [(''system'', system_message),
                   (''user'', prompt_of (context_of relevant_materials))] (7 / 10) ai1 of
             (Inl e, ai2) \<Rightarrow> Some (Inl e, a1, w1, ai2)
           | (Inr content, ai2) \<Rightarrow>
               (case strip_fence content of
                  Inl e \<Rightarrow> Some (Inl e, a1, w1, ai2)
                | Inr stripped \<Rightarrow>
                    (case loads stripped of
                       None \<Rightarrow> Some (Inl (JSONDecodeError stripped), a1, w1, ai2)
                     | Some v \<Rightarrow> Some (Inr v, a1, w1, ai2)))))"

text \<open>The two placeholders of \<open>generate_flashcards\<close>, by handler.\<close>

definition flashcard_placeholder :: "string \<Rightarrow> json" where
  "flashcard_placeholder answer = JList [JDict [(''question'', JStr ''Error''), (''answer'', JStr answer)]]"

definition generate_flashcards ::
  "(string \<Rightarrow> json option) \<Rightarrow> string \<Rightarrow> int \<Rightarrow> study_assistant \<Rightarrow> world \<Rightarrow> openai
     \<Rightarrow> ((exn + json) \<times> study_assistant \<times> world \<times> openai) option" where
  "generate_flashcards loads topic count a w ai =
     (case generation_body loads flashcards_system
             (flashcards_prompt count topic) topic a w ai of
        None \<Rightarrow> None
      | Some (Inr v, st) \<Rightarrow> Some (Inr v, st)
      | Some (Inl (JSONDecodeError m), st) \<Rightarrow>
          Some (Inr (flashcard_placeholder ''Could not generate flashcards.''), st)
      | Some (Inl e, st) \<Rightarrow> Some (Inr (flashcard_placeholder (''Error: '' @ exn_str e)), st))"

text \<open>The two placeholders of \<open>generate_quiz\<close>.\<close>

definition quiz_placeholder :: "string \<Rightarrow> json" where
  "quiz_placeholder explanation =
     JList [JDict [(''question'', JStr ''Error''), (''options'', JList [JStr ''Error'']),
                   (''correct_index'', JInt 0), (''explanation'', JStr explanation)]]"

definition generate_quiz ::
  "(string \<Rightarrow> json option) \<Rightarrow> string \<Rightarrow> int \<Rightarrow> study_assistant \<Rightarrow> world \<Rightarrow> openai
     \<Rightarrow> ((exn + json) \<times> study_assistant \<times> world \<times> openai) option" where
  "generate_quiz loads topic num_questions a w ai =
     (case generation_body loads quiz_system
             (quiz_prompt num_questions topic) topic a w ai of
        None \<Rightarrow> None
      | Some (Inr v, st) \<Rightarrow> Some (Inr v, st)
      | Some (Inl (JSONDecodeError m), st) \<Rightarrow>
          Some (Inr (quiz_placeholder ''Could not generate quiz.''), st)
      | Some (Inl e, st) \<Rightarrow> Some (Inr (quiz_placeholder (''Error: '' @ exn_str e)), st))"

subsection \<open>Notions to state the behaviour of the assistant\<close>

text \<open>A sequence of calls of \<open>generate_response\<close>, one for each query, with what each
  call returned or raised.\<close>

fun converse ::
  "string list \<Rightarrow> study_assistant \<Rightarrow> world \<Rightarrow> openai
     \<Rightarrow> ((exn + answer) list \<times> study_assistant \<times> world \<times> openai) option" where
  "converse [] a w ai = Some ([], a, w, ai)"
| "converse (q # qs) a w ai =
     (case generate_response q a w ai of
        None \<Rightarrow> None
      | Some (r, a1, w1, ai1) \<Rightarrow>
          (case converse qs a1 w1 ai1 of
             None \<Rightarrow> None
           | Some (rs, st) \<Rightarrow> Some (r # rs, st)))"

text \<open>The turn of a call that returned the reply of the chat completion; no turn for a
  call that returned an error text or raised.\<close>

fun turn_of :: "string \<Rightarrow> exn + answer \<Rightarrow> turn list" where
  "turn_of q (Inr (Reply s)) = [\<lparr>t_user = q, t_assistant = s\<rparr>]"
| "turn_of q r = []"

definition turns_of :: "string list \<Rightarrow> (exn + answer) list \<Rightarrow> turn list" where
  "turns_of qs rs = concat (map (\<lambda>(q, r). turn_of q r) (zip qs rs))"

fun is_reply :: "exn + answer \<Rightarrow> bool" where
  "is_reply (Inr (Reply s)) = True"
| "is_reply r = False"

text \<open>The item shapes that the prompts ask for: a flashcard has a question and an
  answer; a quiz item has a question, four options, the index of the correct one and an
  explanation.\<close>

fun is_jstr :: "json \<Rightarrow> bool" where
  "is_jstr (JStr s) = True"
| "is_jstr j = False"

fun flashcard_item :: "json \<Rightarrow> bool" where
  "flashcard_item (JDict [(k1, JStr q), (k2, JStr a)]) = (k1 = ''question'' \<and> k2 = ''answer'')"
| "flashcard_item j = False"

text \<open>A quiz item with \<open>n\<close> options.\<close>

fun quiz_item :: "nat \<Rightarrow> json \<Rightarrow> bool" where
  "quiz_item n (JDict [(k1, JStr q), (k2, JList opts), (k3, JInt i), (k4, JStr ex)]) =
     (k1 = ''question'' \<and> k2 = ''options'' \<and> k3 = ''correct_index'' \<and> k4 = ''explanation''
      \<and> length opts = n \<and> list_all is_jstr opts \<and> 0 \<le> i \<and> i < int n)"
| "quiz_item n j = False"

text \<open>A list of one item of a shape.\<close>

fun single_item :: "(json \<Rightarrow> bool) \<Rightarrow> json \<Rightarrow> bool" where
  "single_item shape (JList [j]) = shape j"
| "single_item shape j = False"

text \<open>A world in which the adapter is set up and the engine answers every search, and a
  client that answers every request.\<close>

definition serving :: "store \<Rightarrow> world \<Rightarrow> bool" where
  "serving self w =
     (calm w \<and> ready self w \<and> (\<forall>k. fault w KSearch k = None) \<and> (\<forall>k. hits w k \<noteq> []))"

definition answering :: "openai \<Rightarrow> bool" where
  "answering ai = (\<forall>k. (\<exists>v. embed_out ai k = Inr v) \<and> (\<exists>s. chat_out ai k = Inr s))"

subsection \<open>Example assistants and clients\<close>

definition fresh_assistant :: study_assistant where
  "fresh_assistant = \<lparr>conversation_history = [], vector_store = ready_store\<rparr>"

text \<open>A client that answers every request, one whose embedding requests time out, and
  one whose chat completions are not JSON.\<close>

definition plain_client :: openai where
  "plain_client =
     \<lparr>embed_out = (\<lambda>k. Inr [1, 0]), embed_calls = 0,
      chat_out = (\<lambda>k. Inr ''Cells are the units of life.''), chat_calls = 0, requests = []\<rparr>"

definition down_client :: openai where
  "down_client = plain_client\<lparr>embed_out := (\<lambda>k. Inl (OtherException ''timeout''))\<rparr>"

text \<open>A \<open>json.loads\<close> that accepts nothing but \<open>[]\<close>.\<close>

definition loads_empty_list :: "string \<Rightarrow> json option" where
  "loads_empty_list s = (if s = ''[]'' then Some (JList []) else None)"

section \<open>Properties of the chunker\<close>

lemma norm_index_nonneg: "0 \<le> i \<Longrightarrow> norm_index i n = min (nat i) n"
  by (simp add: norm_index_def)

lemma rfind_scan_bounds: "rfind_scan xs sub a k = Some p \<Longrightarrow> a \<le> p \<and> p < a + k"
  by (induction k) (auto split: if_splits)

lemma py_rfind_bounds:
  assumes "0 \<le> i" and "i \<le> int (length xs)" and "0 \<le> j" and "sub \<noteq> []"
  shows "py_rfind xs sub i j = - 1 \<or> (i \<le> py_rfind xs sub i j \<and> py_rfind xs sub i j < j)"
proof (cases "rfind_scan xs sub (norm_index i (length xs))
                (Suc (norm_index j (length xs)) - (norm_index i (length xs) + length sub))")
  case None
  then show ?thesis by (simp add: py_rfind_def)
next
  case (Some p)
  from rfind_scan_bounds [OF Some]
  have lo: "norm_index i (length xs) \<le> p"
    and hi: "p < norm_index i (length xs)
               + (Suc (norm_index j (length xs)) - (norm_index i (length xs) + length sub))"
    by simp_all
  from assms have len: "1 \<le> length sub" by (cases sub) simp_all
  from assms have a: "norm_index i (length xs) = nat i" by (simp add: norm_index_nonneg)
  from assms have b: "norm_index j (length xs) \<le> nat j" by (simp add: norm_index_nonneg)
  from lo hi len have "p < norm_index j (length xs)" by arith
  with b have pj: "int p < j" by linarith
  from lo a assms have ip: "i \<le> int p" by linarith
  from Some have "py_rfind xs sub i j = int p" by (simp add: py_rfind_def)
  with pj ip show ?thesis by simp
qed

lemma find_boundary_bounds:
  assumes "0 \<le> start" and "start < end" and "start \<le> int (length text)"
    and "\<forall>c \<in> set cs. c \<noteq> []"
  shows "start < find_boundary text cs start end \<and> find_boundary text cs start end \<le> end"
  using assms(4)
proof (induction cs)
  case Nil
  with assms show ?case by simp
next
  case (Cons c cs)
  then have c: "c \<noteq> []" by simp
  from py_rfind_bounds [of start "text" "end" c] assms c
  have "py_rfind text c start end = - 1
        \<or> (start \<le> py_rfind text c start end \<and> py_rfind text c start end < end)"
    by simp
  with Cons show ?case by (auto simp: Let_def)
qed

lemma boundaries_nonempty: "\<forall>c \<in> set boundaries. c \<noteq> []"
  by (simp add: boundaries_def)

lemma chunk_end_bounds:
  assumes "0 \<le> start" and "start < int (length text)" and "1 \<le> chunk_size"
  shows "start < chunk_end text chunk_size start"
    and "chunk_end text chunk_size start \<le> int (length text)"
    and "chunk_end text chunk_size start \<le> start + chunk_size"
proof -
  let ?e = "min (start + chunk_size) (int (length text))"
  from assms have se: "start < ?e" by simp
  from find_boundary_bounds [OF assms(1) se _ boundaries_nonempty] assms
  have fb: "start < find_boundary text boundaries start ?e"
           "find_boundary text boundaries start ?e \<le> int (length text)"
           "find_boundary text boundaries start ?e \<le> start + chunk_size"
    by simp_all
  have ce: "chunk_end text chunk_size start
             = (if ?e < int (length text) then find_boundary text boundaries start ?e else ?e)"
    unfolding chunk_end_def Let_def by (rule refl)
  have "start < chunk_end text chunk_size start
        \<and> chunk_end text chunk_size start \<le> int (length text)
        \<and> chunk_end text chunk_size start \<le> start + chunk_size"
  proof (cases "?e < int (length text)")
    case True
    then have "chunk_end text chunk_size start = find_boundary text boundaries start ?e"
      by (simp only: ce if_P)
    with fb show ?thesis by simp
  next
    case False
    then have "chunk_end text chunk_size start = ?e"
      by (simp only: ce if_False)
    with se show ?thesis by simp
  qed
  then show "start < chunk_end text chunk_size start"
    and "chunk_end text chunk_size start \<le> int (length text)"
    and "chunk_end text chunk_size start \<le> start + chunk_size"
    by simp_all
qed

lemma next_start_progress: "start < end \<Longrightarrow> start < next_start overlap start end"
  by (simp add: next_start_def)

lemma next_start_overlap:
  "0 \<le> overlap \<Longrightarrow> next_start overlap start end \<le> end \<and> end - next_start overlap start end \<le> overlap"
  by (simp add: next_start_def)

lemma py_slice_nat:
  "a \<le> b \<Longrightarrow> b \<le> length xs \<Longrightarrow> py_slice xs (int a) (int b) = take (b - a) (drop a xs)"
  by (simp add: py_slice_def norm_index_def Let_def)

lemma chunk_loop_spans:
  assumes cs: "1 \<le> cs"
  shows "0 \<le> start \<Longrightarrow>
     \<exists>spans. chunk_loop text cs ov start acc = Some (acc @ slices text spans)
       \<and> bounded_spans (length text) cs spans
       \<and> (int (length text) \<le> start \<longrightarrow> spans = [])
       \<and> (start < int (length text) \<longrightarrow> spans \<noteq> [] \<and> fst (hd spans) = nat start)
       \<and> (0 \<le> ov \<longrightarrow> covers (nat start) (length text) spans \<and> linked ov spans)"
proof (induction "nat (int (length text) - start)" arbitrary: start acc rule: less_induct)
  case less
  let ?n = "int (length text)"
  show ?case
  proof (cases "start < ?n")
    case False
    then have "chunk_loop text cs ov start acc = Some acc"
      by (subst chunk_loop.simps) simp
    moreover from False less.prems have "\<forall>p. nat start \<le> p \<longrightarrow> \<not> p < length text"
      by auto
    ultimately show ?thesis using False
      by (intro exI [of _ "[]"]) (simp add: slices_def bounded_spans_def covers_def)
  next
    case True
    define e where "e = chunk_end text cs start"
    define nx where "nx = next_start ov start e"
    from chunk_end_bounds [OF less.prems True cs]
    have e: "start < e" "e \<le> ?n" "e \<le> start + cs" by (simp_all add: e_def)
    from next_start_progress [OF e(1)] have nx: "start < nx" by (simp add: nx_def)
    have step: "chunk_loop text cs ov start acc
                = chunk_loop text cs ov nx (acc @ [py_slice text start e])"
      using True by (subst chunk_loop.simps) (simp add: e_def nx_def Let_def)
    from less.prems e have sl: "py_slice text start e = take (nat e - nat start) (drop (nat start) text)"
      using py_slice_nat [of "nat start" "nat e" "text"] by simp
    from nx True less.prems have "nat (?n - nx) < nat (?n - start)" and "0 \<le> nx" by simp_all
    from less.hyps [OF this, of "acc @ [py_slice text start e]"]
    obtain spans where
      r: "chunk_loop text cs ov nx (acc @ [py_slice text start e])
            = Some ((acc @ [py_slice text start e]) @ slices text spans)"
      and b: "bounded_spans (length text) cs spans"
      and emp: "?n \<le> nx \<longrightarrow> spans = []"
      and hd: "nx < ?n \<longrightarrow> spans \<noteq> [] \<and> fst (hd spans) = nat nx"
      and ov: "0 \<le> ov \<longrightarrow> covers (nat nx) (length text) spans \<and> linked ov spans"
      by blast
    let ?sp = "(nat start, nat e) # spans"
    have 1: "chunk_loop text cs ov start acc = Some (acc @ slices text ?sp)"
      using step r sl by (simp add: slices_def)
    have 2: "bounded_spans (length text) cs ?sp"
      using b e less.prems by (simp add: bounded_spans_def)
    have 3: "0 \<le> ov \<longrightarrow> covers (nat start) (length text) ?sp \<and> linked ov ?sp"
    proof
      assume o: "0 \<le> ov"
      from next_start_overlap [OF o, of start e]
      have nxe: "nx \<le> e" "e - nx \<le> ov" by (simp_all add: nx_def)
      from ov o have c: "covers (nat nx) (length text) spans" and l: "linked ov spans" by simp_all
      have "covers (nat start) (length text) ?sp"
        unfolding covers_def
      proof (intro allI impI)
        fix p assume p: "nat start \<le> p \<and> p < length text"
        show "\<exists>(s, e) \<in> set ?sp. s \<le> p \<and> p < e"
        proof (cases "p < nat e")
          case True
          with p show ?thesis by simp
        next
          case False
          with nxe less.prems nx have "nat nx \<le> p" by simp
          with c p show ?thesis by (auto simp: covers_def)
        qed
      qed
      moreover have "linked ov ?sp"
      proof (cases spans)
        case Nil
        then show ?thesis by simp
      next
        case (Cons x r)
        obtain s' e' where x: "x = (s', e')" by (cases x)
        from Cons emp have "nx < ?n" by auto
        with hd Cons x have "s' = nat nx" by simp
        with nx nxe less.prems l Cons x show ?thesis by simp
      qed
      ultimately show "covers (nat start) (length text) ?sp \<and> linked ov ?sp" ..
    qed
    from 1 2 3 True show ?thesis
      by (intro exI [of _ ?sp]) simp
  qed
qed

lemma slices_lengths:
  "bounded_spans (length text) cs spans \<Longrightarrow> list_all (\<lambda>c. c \<noteq> [] \<and> int (length c) \<le> cs) (slices text spans)"
  by (auto simp: bounded_spans_def slices_def list_all_iff)

lemma chunk_text_spans:
  assumes "1 \<le> chunk_size"
  shows "\<exists>spans. chunk_text text chunk_size overlap = Some (slices text spans)
           \<and> bounded_spans (length text) chunk_size spans
           \<and> (text = [] \<longrightarrow> spans = [])
           \<and> (0 \<le> overlap \<longrightarrow> covers 0 (length text) spans \<and> linked overlap spans)"
proof (cases "text = []")
  case True
  then show ?thesis
    by (intro exI [of _ "[]"]) (simp add: chunk_text_def slices_def bounded_spans_def covers_def)
next
  case False
  from chunk_loop_spans [OF assms, of 0 "text" overlap "[]"] False
  show ?thesis by (auto simp: chunk_text_def)
qed

text \<open>
  C5. For \<open>0 \<le> overlap < chunk_size\<close>, \<open>chunk_text\<close> returns the slices of the text at
  a list of spans that, taken in order, cover every character of the text; the next span
  starts later than the previous one and shares at most \<open>overlap\<close> characters with it;
  and no chunk is longer than \<open>chunk_size\<close> characters (whether or not a boundary
  character was found in its window).
\<close>

theorem chunk_text_covers:
  assumes "0 \<le> overlap" and "overlap < chunk_size"
  shows "\<exists>spans. chunk_text text chunk_size overlap = Some (slices text spans)
           \<and> covers 0 (length text) spans
           \<and> linked overlap spans
           \<and> bounded_spans (length text) chunk_size spans
           \<and> list_all (\<lambda>c. int (length c) \<le> chunk_size) (slices text spans)"
proof -
  from assms have "1 \<le> chunk_size" by simp
  from chunk_text_spans [OF this, of "text" overlap] assms(1)
  obtain spans where s: "chunk_text text chunk_size overlap = Some (slices text spans)"
    "bounded_spans (length text) chunk_size spans"
    "covers 0 (length text) spans" "linked overlap spans"
    by blast
  from slices_lengths [OF s(2)]
  have "list_all (\<lambda>c. int (length c) \<le> chunk_size) (slices text spans)"
    by (simp add: list_all_iff)
  with s show ?thesis by blast
qed

theorem chunk_text_covers_witness:
  "(0::int) \<le> 3 \<and> (3::int) < 10
   \<and> chunk_text ''Hello. World is big! Yes'' 10 3
       = Some [''Hello.'', ''lo.'', '' World is '', ''is big!'', ''ig! Yes'', ''Yes'']
   \<and> (\<exists>spans. chunk_text ''Hello. World is big! Yes'' 10 3
                  = Some (slices ''Hello. World is big! Yes'' spans)
         \<and> covers 0 (length ''Hello. World is big! Yes'') spans
         \<and> linked 3 spans
         \<and> bounded_spans (length ''Hello. World is big! Yes'') 10 spans
         \<and> list_all (\<lambda>c. int (length c) \<le> 10) (slices ''Hello. World is big! Yes'' spans))"
proof -
  have v: "chunk_text ''Hello. World is big! Yes'' 10 3
       = Some [''Hello.'', ''lo.'', '' World is '', ''is big!'', ''ig! Yes'', ''Yes'']"
    by code_simp
  from v chunk_text_covers [of 3 10 "''Hello. World is big! Yes''"]
  show ?thesis by simp
qed

text \<open>
  C10. Whenever \<open>chunk_size \<ge> 1\<close>, for every text and every overlap (also
  \<open>overlap \<ge> chunk_size\<close>), \<open>chunk_text\<close> returns: the start index strictly increases
  in each iteration, the result is the empty list for the empty text, and no returned
  chunk is empty.
\<close>

theorem chunk_text_terminates:
  assumes "1 \<le> chunk_size"
  shows "(\<exists>chunks. chunk_text text chunk_size overlap = Some chunks
            \<and> [] \<notin> set chunks \<and> (text = [] \<longrightarrow> chunks = []))
         \<and> (\<forall>start. 0 \<le> start \<and> start < int (length text)
               \<longrightarrow> start < next_start overlap start (chunk_end text chunk_size start))"
proof
  from chunk_text_spans [OF assms, of "text" overlap]
  obtain spans where s: "chunk_text text chunk_size overlap = Some (slices text spans)"
    "bounded_spans (length text) chunk_size spans" "text = [] \<longrightarrow> spans = []"
    by blast
  from slices_lengths [OF s(2)] have "[] \<notin> set (slices text spans)"
    by (auto simp: list_all_iff)
  moreover from s(3) have "text = [] \<longrightarrow> slices text spans = []"
    by (simp add: slices_def)
  ultimately show "\<exists>chunks. chunk_text text chunk_size overlap = Some chunks
            \<and> [] \<notin> set chunks \<and> (text = [] \<longrightarrow> chunks = [])"
    using s(1) by blast
next
  show "\<forall>start. 0 \<le> start \<and> start < int (length text)
          \<longrightarrow> start < next_start overlap start (chunk_end text chunk_size start)"
    using chunk_end_bounds(1) [OF _ _ assms] next_start_progress by blast
qed

theorem chunk_text_terminates_witness:
  "(1::int) \<le> 3
   \<and> chunk_text ''abcdefgh'' 3 10 = Some [''abc'', ''def'', ''gh'']
   \<and> chunk_text [] 3 10 = Some []
   \<and> (3::int) < next_start 10 3 (chunk_end ''abcdefgh'' 3 3)"
proof -
  have v: "chunk_text ''abcdefgh'' 3 10 = Some [''abc'', ''def'', ''gh'']"
    "chunk_text [] 3 10 = Some []"
    by code_simp+
  have h: "(1::int) \<le> 3" by simp
  from chunk_text_terminates [OF h, of "''abcdefgh''" 10]
  have "\<forall>start. 0 \<le> start \<and> start < int (length ''abcdefgh'')
          \<longrightarrow> start < next_start 10 start (chunk_end ''abcdefgh'' 3 start)"
    by (rule conjunct2)
  then have "(3::int) < next_start 10 3 (chunk_end ''abcdefgh'' 3 3)"
    by simp
  with v h show ?thesis by simp
qed

section \<open>Properties of the connection routine\<close>

lemma attempt_result:
  "fst (attempt self w) =
     (case fault w KConnect (calls w KConnect) of
        Some e \<Rightarrow> Some e
      | None \<Rightarrow> fault w KListCollections (calls w KConnect))"
  by (simp add: attempt_def Let_def split: option.splits)

lemma attempt_world:
  "fault (snd (attempt self w)) = fault w"
  "calls (snd (attempt self w)) = (calls w)(KConnect := Suc (calls w KConnect))"
  "regens (snd (attempt self w)) = regens w"
  "uuid4 (snd (attempt self w)) = uuid4 w"
  "clock (snd (attempt self w)) = clock w"
  "hits (snd (attempt self w)) = hits w"
  "dbs (snd (attempt self w)) = dbs w"
  "next_pk (snd (attempt self w)) = next_pk w"
  "trace (snd (attempt self w)) = trace w @ attempt_events self w (calls w KConnect)"
  by (simp_all add: attempt_def attempt_events_def Let_def split: option.splits)

lemma attempt_fails_iff: "attempt_fails w (calls w KConnect) \<longleftrightarrow> fst (attempt self w) \<noteq> None"
  by (simp add: attempt_result attempt_fails_def split: option.splits)

lemma sleep_world:
  "fault (sleep n w) = fault w" "calls (sleep n w) = calls w" "regens (sleep n w) = regens w"
  "uuid4 (sleep n w) = uuid4 w" "clock (sleep n w) = clock w" "hits (sleep n w) = hits w"
  "dbs (sleep n w) = dbs w" "conns (sleep n w) = conns w" "next_pk (sleep n w) = next_pk w"
  "trace (sleep n w) = trace w @ [ESleep n]"
  by (simp_all add: sleep_def)

lemma connect_loop_retry:
  assumes "attempt_fails w (calls w KConnect)" and "Suc retry_count < max_retries"
  shows "connect_loop self retry_count w = connect_loop self (Suc retry_count) (after_failure self w)"
proof -
  from assms(1) obtain e where "fst (attempt self w) = Some e"
    by (auto simp: attempt_fails_iff [of w self])
  then obtain w1 where a: "attempt self w = (Some e, w1)"
    by (cases "attempt self w") simp
  from assms(2) have "retry_count < max_retries" and "\<not> max_retries \<le> Suc retry_count" by simp_all
  then show ?thesis
    by (subst connect_loop.simps) (simp add: a after_failure_def Let_def)
qed

lemma connect_loop_give_up:
  assumes "attempt_fails w (calls w KConnect)" and "retry_count < max_retries"
    and "max_retries \<le> Suc retry_count" and "\<not> session_scoped (uri self)"
  shows "\<exists>e. connect_loop self retry_count w =
           Some (Inl (ConnectionNotExistException
                        (''Failed to connect to Milvus after 3 attempts: '' @ exn_str e)),
                 self, after_failure self w)"
proof -
  from assms(1) obtain e where "fst (attempt self w) = Some e"
    by (auto simp: attempt_fails_iff [of w self])
  then obtain w1 where a: "attempt self w = (Some e, w1)"
    by (cases "attempt self w") simp
  from assms(2-4) have "connect_loop self retry_count w =
           Some (Inl (ConnectionNotExistException
                        (''Failed to connect to Milvus after 3 attempts: '' @ exn_str e)),
                 self, after_failure self w)"
    by (subst connect_loop.simps) (simp add: a after_failure_def Let_def)
  then show ?thesis ..
qed

lemma after_failure_world:
  "fault (after_failure self w) = fault w"
  "calls (after_failure self w) KConnect = Suc (calls w KConnect)"
  "regens (after_failure self w) = regens w"
  "dbs (after_failure self w) = dbs w"
  "trace (after_failure self w) = trace w @ attempt_events self w (calls w KConnect) @ [ESleep 1]"
  by (simp_all add: after_failure_def sleep_world attempt_world)

lemma attempt_fails_cong: "fault w' = fault w \<Longrightarrow> attempt_fails w' k = attempt_fails w k"
  by (simp add: attempt_fails_def)

lemma attempt_events_cong: "fault w' = fault w \<Longrightarrow> attempt_events self w' k = attempt_events self w k"
  by (simp add: attempt_events_def)


lemma path_join_tmp: "sublist ''tmp'' (path_join a (''tmp'' @ b))"
proof -
  have "path_join a (''tmp'' @ b) = ''tmp'' @ b \<or> path_join a (''tmp'' @ b) = a @ ''tmp'' @ b
        \<or> path_join a (''tmp'' @ b) = (a @ ''/'') @ ''tmp'' @ b"
    by (simp add: path_join_def)
  then show ?thesis
    by (metis sublist_appendI sublist_append_rightI)
qed

lemma fresh_uri_session_scoped: "session_scoped (fst (fresh_uri self w))"
  using path_join_tmp [of "workspace_root self"]
  by (simp add: fresh_uri_def session_scoped_def Let_def)

lemma fresh_uri_world:
  "fault (snd (fresh_uri self w)) = fault w"
  "calls (snd (fresh_uri self w)) = calls w"
  "regens (snd (fresh_uri self w)) = Suc (regens w)"
  "dbs (snd (fresh_uri self w)) = dbs w"
  "conns (snd (fresh_uri self w)) = conns w"
  by (simp_all add: fresh_uri_def Let_def)

lemma env_call_world:
  "fst (env_call k ev w) = fault w k (calls w k)"
  "fault (snd (env_call k ev w)) = fault w"
  "calls (snd (env_call k ev w)) = (calls w)(k := Suc (calls w k))"
  "regens (snd (env_call k ev w)) = regens w"
  "dbs (snd (env_call k ev w)) = dbs w"
  "conns (snd (env_call k ev w)) = conns w"
  "next_pk (snd (env_call k ev w)) = next_pk w"
  "trace (snd (env_call k ev w)) = trace w @ [ev]"
  by (simp_all add: env_call_def)

lemma connect_loop_session_scoped_raises:
  assumes "connect_loop self retry_count w = Some y"
  shows "session_scoped (uri self) \<longrightarrow>
           (\<forall>e s' w'. y = (Inl e, s', w') \<longrightarrow> (\<exists>r. fault w KMakedirs r = Some e))"
  using assms
proof (induction rule: connect_loop.raw_induct [rotated 1, consumes 1, case_names step])
  case (step f self retry_count w y)
  show ?case
  proof (intro impI allI)
    fix e s' w'
    assume ss: "session_scoped (uri self)" and y: "y = (Inl e, s', w')"
    obtain r1 w1 where a: "attempt self w = (r1, w1)" by (cases "attempt self w")
    have fw1: "fault w1 = fault w" using attempt_world(1) [of self w] a by simp
    obtain u w3 where f: "fresh_uri self (sleep 1 w1) = (u, w3)" by (cases "fresh_uri self (sleep 1 w1)")
    have fw3: "fault w3 = fault w" and su: "session_scoped u"
      using fresh_uri_world(1) [of self "sleep 1 w1"] fresh_uri_session_scoped [of self "sleep 1 w1"] f
      by (simp_all add: sleep_world fw1)
    obtain r4 w4 where m: "makedirs u w3 = (r4, w4)" by (cases "makedirs u w3")
    have fw4: "fault w4 = fault w" and r4: "r4 = fault w KMakedirs (calls w3 KMakedirs)"
      using env_call_world(1,2) [of KMakedirs "EMakedirs u" w3] m
      by (simp_all add: makedirs_def fw3)
    note IH = step.IH
    from step.hyps y ss a f m show "\<exists>r. fault w KMakedirs r = Some e"
    proof (simp add: Let_def split: if_splits option.splits)
      assume "f (self\<lparr>uri := u\<rparr>) 0 w4 = Some (Inl e, s', w')"
      from IH [OF this] su fw4 show ?thesis by simp
    next
      assume "r4 = Some e"
      with r4 show ?thesis by auto
    next
      assume "f self (Suc retry_count) (sleep (Suc 0) w1) = Some (Inl e, s', w')"
      from IH [OF this] ss fw1 show ?thesis by (simp add: sleep_world)
    qed
  qed
qed


lemma attempt_calls_other: "k \<noteq> KConnect \<Longrightarrow> calls (snd (attempt self w)) k = calls w k"
  by (simp add: attempt_world)





lemma connect_loop_never_returns:
  assumes "connect_loop self retry_count w = Some y"
  shows "\<not> (session_scoped (uri self) \<and> (\<forall>k. attempt_fails w k)
            \<and> (\<forall>r. fault w KMakedirs r = None) \<and> retry_count < max_retries)"
  using assms
proof (induction rule: connect_loop.raw_induct [rotated 1, consumes 1, case_names step])
  case (step f self retry_count w y)
  note IH = step.IH
  show ?case
  proof
    assume h: "session_scoped (uri self) \<and> (\<forall>k. attempt_fails w k)
            \<and> (\<forall>r. fault w KMakedirs r = None) \<and> retry_count < max_retries"
    then have "attempt_fails w (calls w KConnect)" by simp
    then have "fst (attempt self w) \<noteq> None" by (simp add: attempt_fails_iff [of w self])
    then obtain e where "fst (attempt self w) = Some e" by auto
    then obtain w1 where a: "attempt self w = (Some e, w1)" by (cases "attempt self w") simp
    have fw1: "fault w1 = fault w" using attempt_world(1) [of self w] a by simp
    let ?w2 = "sleep (Suc 0) w1"
    obtain u w3 where f: "fresh_uri self ?w2 = (u, w3)" by (cases "fresh_uri self ?w2")
    have fw3: "fault w3 = fault w" and su: "session_scoped u"
      using fresh_uri_world(1) [of self ?w2] fresh_uri_session_scoped [of self ?w2] f
      by (simp_all add: sleep_world fw1)
    obtain r4 w4 where m: "makedirs u w3 = (r4, w4)" by (cases "makedirs u w3")
    have fw4: "fault w4 = fault w" and r4: "r4 = None"
      using env_call_world(1,2) [of KMakedirs "EMakedirs u" w3] m h
      by (simp_all add: makedirs_def fw3)
    from step.hyps h a f m r4
    consider (regen) "f (self\<lparr>uri := u\<rparr>) 0 w4 = Some y"
      | (again) "Suc retry_count < max_retries" "f self (Suc retry_count) ?w2 = Some y"
      by (auto simp: Let_def split: if_splits)
    then show False
    proof cases
      case regen
      from IH [OF regen] h su show False
        by (simp add: attempt_fails_cong [OF fw4] fw4 max_retries_def)
    next
      case again
      have fw2: "fault ?w2 = fault w" by (simp add: sleep_world fw1)
      from IH [OF again(2)] h again(1) show False
        by (simp add: attempt_fails_cong [OF fw2] fw2)
    qed
  qed
qed

lemma regenerate_world:
  "fault (snd (regenerate self w)) = fault w"
  "calls (snd (regenerate self w)) = (calls w)(KMakedirs := Suc (calls w KMakedirs))"
  "regens (snd (regenerate self w)) = Suc (regens w)"
  "session_scoped (uri (fst (regenerate self w)))"
  "same_but_uri self (fst (regenerate self w))"
  using fresh_uri_session_scoped [of self w]
  by (simp_all add: regenerate_def makedirs_def env_call_def fresh_uri_def Let_def same_but_uri_def
        split: prod.splits)

lemma connect_loop_connected:
  assumes "\<not> attempt_fails w (calls w KConnect)" and "retry_count < max_retries"
  shows "connect_loop self retry_count w = Some (Inr (), self, snd (attempt self w))"
proof -
  from assms(1) have "fst (attempt self w) = None"
    by (simp add: attempt_fails_iff [of w self])
  then obtain w1 where a: "attempt self w = (None, w1)"
    by (cases "attempt self w") simp
  with assms(2) show ?thesis
    by (subst connect_loop.simps) simp
qed

lemma connect_loop_regenerate:
  assumes "attempt_fails w (calls w KConnect)" and "retry_count < max_retries"
    and "max_retries \<le> Suc retry_count" and "session_scoped (uri self)"
    and "fault w KMakedirs (calls w KMakedirs) = None"
  shows "connect_loop self retry_count w =
           connect_loop (fst (regenerate self (after_failure self w))) 0
             (snd (regenerate self (after_failure self w)))"
proof -
  from assms(1) obtain e where "fst (attempt self w) = Some e"
    by (auto simp: attempt_fails_iff [of w self])
  then obtain w1 where a: "attempt self w = (Some e, w1)"
    by (cases "attempt self w") simp
  obtain u w3 where f: "fresh_uri self (sleep (Suc 0) w1) = (u, w3)"
    by (cases "fresh_uri self (sleep (Suc 0) w1)")
  obtain r4 w4 where m: "makedirs u w3 = (r4, w4)" by (cases "makedirs u w3")
  have "fault w1 = fault w" "calls w1 KMakedirs = calls w KMakedirs"
    using attempt_world(1,2) [of self w] a by simp_all
  then have "fault w3 = fault w" "calls w3 KMakedirs = calls w KMakedirs"
    using fresh_uri_world(1,2) [of self "sleep (Suc 0) w1"] f by (simp_all add: sleep_world)
  with m assms(5) have r4: "r4 = None"
    using env_call_world(1) [of KMakedirs "EMakedirs u" w3] by (simp add: makedirs_def)
  from assms(2-4) show ?thesis
    by (subst connect_loop.simps)
       (simp add: a f m r4 after_failure_def regenerate_def Let_def)
qed

lemma after_failure_calls:
  "calls (after_failure self w) k = (if k = KConnect then Suc (calls w KConnect) else calls w k)"
  by (simp add: after_failure_def sleep_world attempt_world)

lemma failed_round_world:
  "fault (snd (failed_round self w)) = fault w"
  "calls (snd (failed_round self w)) KConnect = calls w KConnect + 3"
  "calls (snd (failed_round self w)) KMakedirs = Suc (calls w KMakedirs)"
  "regens (snd (failed_round self w)) = Suc (regens w)"
  "session_scoped (uri (fst (failed_round self w)))"
  "same_but_uri self (fst (failed_round self w))"
  by (simp_all add: failed_round_def regenerate_world after_failure_world after_failure_calls)

lemma connect_loop_round:
  assumes ss: "session_scoped (uri self)"
    and fails: "\<forall>i<3. attempt_fails w (calls w KConnect + i)"
    and dir: "fault w KMakedirs (calls w KMakedirs) = None"
  shows "connect_loop self 0 w
           = connect_loop (fst (failed_round self w)) 0 (snd (failed_round self w))"
proof -
  let ?k = "calls w KConnect"
  define w1 where "w1 = after_failure self w"
  define w2 where "w2 = after_failure self w1"
  from fails have f0: "attempt_fails w ?k" and f1: "attempt_fails w (Suc ?k)"
    and f2: "attempt_fails w (Suc (Suc ?k))"
    by (simp_all add: numeral_3_eq_3 less_Suc_eq)
  have k1: "calls w1 KConnect = Suc ?k" and fw1: "fault w1 = fault w"
    by (simp_all add: w1_def after_failure_world)
  have k2: "calls w2 KConnect = Suc (Suc ?k)" and fw2: "fault w2 = fault w"
    by (simp_all add: w2_def after_failure_world k1 fw1)
  have m2: "calls w2 KMakedirs = calls w KMakedirs"
    by (simp add: w2_def w1_def after_failure_calls)
  from f1 have g1: "attempt_fails w1 (calls w1 KConnect)"
    by (simp add: k1 attempt_fails_cong [OF fw1])
  from f2 have g2: "attempt_fails w2 (calls w2 KConnect)"
    by (simp add: k2 attempt_fails_cong [OF fw2])
  from dir have d2: "fault w2 KMakedirs (calls w2 KMakedirs) = None"
    by (simp add: fw2 m2)
  have "connect_loop self 0 w = connect_loop self 1 w1"
    using connect_loop_retry [OF f0, of 0 self] by (simp add: w1_def max_retries_def)
  also have "\<dots> = connect_loop self 2 w2"
    using connect_loop_retry [OF g1, of 1 self]
    by (simp add: w2_def max_retries_def numeral_2_eq_2)
  also have "\<dots> = connect_loop (fst (regenerate self (after_failure self w2))) 0
                       (snd (regenerate self (after_failure self w2)))"
    using connect_loop_regenerate [OF g2 _ _ ss d2, of 2] by (simp add: max_retries_def)
  finally show ?thesis
    by (simp add: failed_round_def w2_def w1_def)
qed

lemma same_but_uri_trans: "same_but_uri a b \<Longrightarrow> same_but_uri b c \<Longrightarrow> same_but_uri a c"
  by (cases a, cases b, cases c) (simp add: same_but_uri_def)

lemma connect_loop_rounds:
  "session_scoped (uri self) \<Longrightarrow>
   \<forall>i<3 * n. attempt_fails w (calls w KConnect + i) \<Longrightarrow>
   \<not> attempt_fails w (calls w KConnect + 3 * n) \<Longrightarrow>
   \<forall>j<n. fault w KMakedirs (calls w KMakedirs + j) = None \<Longrightarrow>
   \<exists>s' w'. connect_loop self 0 w = Some (Inr (), s', w')
     \<and> regens w' = regens w + n
     \<and> calls w' KConnect = calls w KConnect + 3 * n + 1
     \<and> same_but_uri self s'"
proof (induction n arbitrary: self w)
  case 0
  then have "connect_loop self 0 w = Some (Inr (), self, snd (attempt self w))"
    using connect_loop_connected [of w 0 self] by (simp add: max_retries_def)
  then show ?case
    by (simp add: attempt_world same_but_uri_def)
next
  case (Suc n)
  let ?s = "fst (failed_round self w)" and ?w = "snd (failed_round self w)"
  from Suc.prems(2) have three: "\<forall>i<3. attempt_fails w (calls w KConnect + i)" by simp
  from Suc.prems(4) [rule_format, of 0] have dir: "fault w KMakedirs (calls w KMakedirs) = None"
    by simp
  note r = connect_loop_round [OF Suc.prems(1) three dir]
  have fw: "fault ?w = fault w" by (rule failed_round_world)
  have a: "\<forall>i<3 * n. attempt_fails ?w (calls ?w KConnect + i)"
  proof (intro allI impI)
    fix i assume "i < 3 * n"
    then have "3 + i < 3 * Suc n" by simp
    with Suc.prems(2) have af: "attempt_fails w (calls w KConnect + (3 + i))" by blast
    have eqi: "calls ?w KConnect + i = calls w KConnect + (3 + i)"
      by (simp add: failed_round_world(2))
    show "attempt_fails ?w (calls ?w KConnect + i)"
      unfolding eqi attempt_fails_cong [OF fw] by (rule af)
  qed
  have eq: "calls ?w KConnect + 3 * n = calls w KConnect + 3 * Suc n"
    by (simp add: failed_round_world(2))
  have b: "\<not> attempt_fails ?w (calls ?w KConnect + 3 * n)"
    unfolding eq attempt_fails_cong [OF fw] by (rule Suc.prems(3))
  have c: "\<forall>j<n. fault ?w KMakedirs (calls ?w KMakedirs + j) = None"
  proof (intro allI impI)
    fix j assume "j < n"
    then have "Suc j < Suc n" by simp
    with Suc.prems(4) have "fault w KMakedirs (calls w KMakedirs + Suc j) = None" by blast
    then show "fault ?w KMakedirs (calls ?w KMakedirs + j) = None"
      by (simp add: fw failed_round_world(3))
  qed
  from Suc.IH [OF failed_round_world(5) a b c]
  obtain s' w' where i: "connect_loop ?s 0 ?w = Some (Inr (), s', w')"
    "regens w' = regens ?w + n" "calls w' KConnect = calls ?w KConnect + 3 * n + 1"
    "same_but_uri ?s s'"
    by blast
  from failed_round_world(6) [of self w] i(4) have "same_but_uri self s'"
    by (rule same_but_uri_trans)
  with r i show ?case
    by (simp add: failed_round_world)
qed

text \<open>
  C7. For a location that is not session-scoped, when the three connection attempts of a
  call fail, \<open>_connect\<close> makes exactly these three attempts, sleeps one second after each
  of them, regenerates no location, and raises the connection-failure error
  (\<open>ConnectionNotExistException\<close>, "Failed to connect to Milvus after 3 attempts").
\<close>

theorem connect_gives_up_after_three:
  assumes "\<not> session_scoped (uri self)"
    and "\<forall>i<3. attempt_fails w (calls w KConnect + i)"
  shows "\<exists>e w'. connect self w =
           Some (Inl (ConnectionNotExistException
                        (''Failed to connect to Milvus after 3 attempts: '' @ exn_str e)),
                 self, w')
         \<and> calls w' KConnect = calls w KConnect + 3
         \<and> regens w' = regens w
         \<and> trace w' = trace w
              @ attempt_events self w (calls w KConnect) @ [ESleep 1]
              @ attempt_events self w (calls w KConnect + 1) @ [ESleep 1]
              @ attempt_events self w (calls w KConnect + 2) @ [ESleep 1]"
proof -
  let ?k = "calls w KConnect"
  define w1 where "w1 = after_failure self w"
  define w2 where "w2 = after_failure self w1"
  define w3 where "w3 = after_failure self w2"
  from assms(2) have f0: "attempt_fails w ?k" and f1: "attempt_fails w (Suc ?k)"
    and f2: "attempt_fails w (Suc (Suc ?k))"
    by (simp_all add: numeral_3_eq_3 less_Suc_eq)
  have k1: "calls w1 KConnect = Suc ?k" and fw1: "fault w1 = fault w"
    by (simp_all add: w1_def after_failure_world)
  have k2: "calls w2 KConnect = Suc (Suc ?k)" and fw2: "fault w2 = fault w"
    by (simp_all add: w2_def after_failure_world k1 fw1)
  from f1 have g1: "attempt_fails w1 (calls w1 KConnect)"
    by (simp add: k1 attempt_fails_cong [OF fw1])
  from f2 have g2: "attempt_fails w2 (calls w2 KConnect)"
    by (simp add: k2 attempt_fails_cong [OF fw2])
  have "connect self w = connect_loop self 1 w1"
    using connect_loop_retry [OF f0, of 0 self] by (simp add: connect_def w1_def max_retries_def)
  also have "\<dots> = connect_loop self 2 w2"
    using connect_loop_retry [OF g1, of 1 self]
    by (simp add: w2_def max_retries_def numeral_2_eq_2)
  finally have c: "connect self w = connect_loop self 2 w2" .
  from connect_loop_give_up [OF g2 _ _ assms(1), of 2]
  obtain e where r: "connect_loop self 2 w2 =
      Some (Inl (ConnectionNotExistException
                   (''Failed to connect to Milvus after 3 attempts: '' @ exn_str e)), self, w3)"
    by (auto simp: max_retries_def w3_def)
  have "calls w3 KConnect = ?k + 3" "regens w3 = regens w"
    by (simp_all add: w3_def after_failure_world k2)
       (simp add: w2_def w1_def after_failure_world)
  moreover have "trace w3 = trace w
              @ attempt_events self w ?k @ [ESleep 1]
              @ attempt_events self w (?k + 1) @ [ESleep 1]
              @ attempt_events self w (?k + 2) @ [ESleep 1]"
  proof -
    have t1: "trace w1 = trace w @ attempt_events self w ?k @ [ESleep 1]"
      by (simp add: w1_def after_failure_world)
    have t2: "trace w2 = trace w1 @ attempt_events self w (Suc ?k) @ [ESleep 1]"
      by (simp add: w2_def after_failure_world(5) k1 attempt_events_cong [OF fw1])
    have t3: "trace w3 = trace w2 @ attempt_events self w (Suc (Suc ?k)) @ [ESleep 1]"
      by (simp add: w3_def after_failure_world(5) k2 attempt_events_cong [OF fw2])
    show ?thesis by (simp add: t1 t2 t3)
  qed
  moreover from c r have "connect self w =
      Some (Inl (ConnectionNotExistException
                   (''Failed to connect to Milvus after 3 attempts: '' @ exn_str e)), self, w3)"
    by simp
  ultimately show ?thesis
    by (intro exI [of _ e] exI [of _ w3] conjI)
qed

theorem connect_gives_up_after_three_witness:
  "\<not> session_scoped (uri remote_store)
   \<and> attempt_fails (refuse_first 3) 0 \<and> attempt_fails (refuse_first 3) 1
   \<and> attempt_fails (refuse_first 3) 2
   \<and> (\<exists>e w'. connect remote_store (refuse_first 3) =
           Some (Inl (ConnectionNotExistException
                        (''Failed to connect to Milvus after 3 attempts: '' @ exn_str e)),
                 remote_store, w')
         \<and> calls w' KConnect = 3
         \<and> regens w' = 0
         \<and> trace w' =
              [EDisconnect ''sa_0a1b2c'', EConnect ''sa_0a1b2c'' ''http://localhost:19530'', ESleep 1,
               EDisconnect ''sa_0a1b2c'', EConnect ''sa_0a1b2c'' ''http://localhost:19530'', ESleep 1,
               EDisconnect ''sa_0a1b2c'', EConnect ''sa_0a1b2c'' ''http://localhost:19530'', ESleep 1])"
proof -
  have h1: "\<not> session_scoped (uri remote_store)"
    by code_simp
  have f: "attempt_fails (refuse_first 3) 0" "attempt_fails (refuse_first 3) 1"
    "attempt_fails (refuse_first 3) 2"
    by (simp_all add: attempt_fails_def refuse_first_def)
  have c: "calls (refuse_first 3) KConnect = 0" "regens (refuse_first 3) = 0"
    "trace (refuse_first 3) = []"
    by (simp_all add: refuse_first_def quiet_world_def)
  have "\<forall>i<3. attempt_fails (refuse_first 3) i"
    by (simp add: attempt_fails_def refuse_first_def)
  then have h2: "\<forall>i<3. attempt_fails (refuse_first 3) (calls (refuse_first 3) KConnect + i)"
    by (simp only: c add_0)
  have ev: "attempt_events remote_store (refuse_first 3) 0
              = [EDisconnect ''sa_0a1b2c'', EConnect ''sa_0a1b2c'' ''http://localhost:19530'']"
    "attempt_events remote_store (refuse_first 3) (Suc 0)
              = [EDisconnect ''sa_0a1b2c'', EConnect ''sa_0a1b2c'' ''http://localhost:19530'']"
    "attempt_events remote_store (refuse_first 3) (Suc (Suc 0))
              = [EDisconnect ''sa_0a1b2c'', EConnect ''sa_0a1b2c'' ''http://localhost:19530'']"
    by (simp_all add: attempt_events_def refuse_first_def remote_store_def local_store_def)
  from connect_gives_up_after_three [OF h1 h2] h1 f show ?thesis
    by (simp add: c ev)
qed

text \<open>
  C2, as stated, fails: at a session-scoped location the routine regenerates the location
  again when the three attempts at the regenerated location fail too. Here six attempts
  are refused and the seventh succeeds: the call returns connected, at the second
  regenerated location, and has raised nothing.
\<close>

theorem connect_regenerates_twice:
  "session_scoped (uri local_store)
   \<and> attempt_fails (refuse_first 6) 0 \<and> attempt_fails (refuse_first 6) 1
   \<and> attempt_fails (refuse_first 6) 2 \<and> attempt_fails (refuse_first 6) 3
   \<and> attempt_fails (refuse_first 6) 4 \<and> attempt_fails (refuse_first 6) 5
   \<and> (\<exists>s' w'. connect local_store (refuse_first 6) = Some (Inr (), s', w')
         \<and> regens w' = 2 \<and> calls w' KConnect = 7)"
proof -
  have h: "session_scoped (uri local_store)"
    by code_simp
  have c: "calls (refuse_first 6) KConnect = 0" "regens (refuse_first 6) = 0"
    "calls (refuse_first 6) KMakedirs = 0"
    by (simp_all add: refuse_first_def quiet_world_def)
  have f: "\<forall>i<6. attempt_fails (refuse_first 6) i" "\<not> attempt_fails (refuse_first 6) 6"
    "\<forall>j. fault (refuse_first 6) KMakedirs j = None"
    by (simp_all add: attempt_fails_def refuse_first_def quiet_world_def)
  from f have p: "\<forall>i<3 * 2. attempt_fails (refuse_first 6) (calls (refuse_first 6) KConnect + i)"
    "\<not> attempt_fails (refuse_first 6) (calls (refuse_first 6) KConnect + 3 * 2)"
    "\<forall>j<2. fault (refuse_first 6) KMakedirs (calls (refuse_first 6) KMakedirs + j) = None"
    by (simp_all add: c)
  from connect_loop_rounds [OF h p]
  have "\<exists>s' w'. connect local_store (refuse_first 6) = Some (Inr (), s', w')
         \<and> regens w' = 2 \<and> calls w' KConnect = 7"
    by (auto simp: connect_def c)
  moreover from f(1) have "attempt_fails (refuse_first 6) 0" "attempt_fails (refuse_first 6) 1"
    "attempt_fails (refuse_first 6) 2" "attempt_fails (refuse_first 6) 3"
    "attempt_fails (refuse_first 6) 4" "attempt_fails (refuse_first 6) 5"
    by simp_all
  ultimately show ?thesis using h by blast
qed

text \<open>
  C2, amended. At a session-scoped location the routine regenerates the location and
  resets the retry counter after every three failed attempts, without a bound on the
  number of regenerations: the only exception it raises is one of creating the directory
  of a new location (never the connection-failure error); when every attempt fails and
  the directories can be created the call does not return; and when the first \<open>3 * n\<close>
  attempts fail and the next one succeeds, the call returns connected after \<open>n\<close>
  regenerations, for every \<open>n\<close>.
\<close>

theorem connect_session_scoped_unbounded:
  assumes "session_scoped (uri self)"
  shows "(\<forall>e s' w'. connect self w = Some (Inl e, s', w') \<longrightarrow> (\<exists>r. fault w KMakedirs r = Some e))
         \<and> ((\<forall>k. attempt_fails w k) \<and> (\<forall>r. fault w KMakedirs r = None)
              \<longrightarrow> connect self w = None)
         \<and> (\<forall>n. (\<forall>i<3 * n. attempt_fails w (calls w KConnect + i))
                  \<and> \<not> attempt_fails w (calls w KConnect + 3 * n)
                  \<and> (\<forall>j<n. fault w KMakedirs (calls w KMakedirs + j) = None)
              \<longrightarrow> (\<exists>s' w'. connect self w = Some (Inr (), s', w')
                     \<and> regens w' = regens w + n
                     \<and> calls w' KConnect = calls w KConnect + 3 * n + 1))"
proof (intro conjI)
  show "\<forall>e s' w'. connect self w = Some (Inl e, s', w') \<longrightarrow> (\<exists>r. fault w KMakedirs r = Some e)"
    using connect_loop_session_scoped_raises [of self 0 w] assms
    by (simp add: connect_def)
next
  show "(\<forall>k. attempt_fails w k) \<and> (\<forall>r. fault w KMakedirs r = None) \<longrightarrow> connect self w = None"
  proof
    assume h: "(\<forall>k. attempt_fails w k) \<and> (\<forall>r. fault w KMakedirs r = None)"
    show "connect self w = None"
    proof (cases "connect self w")
      case None
      then show ?thesis .
    next
      case (Some y)
      then have "connect_loop self 0 w = Some y" by (simp add: connect_def)
      from connect_loop_never_returns [OF this] assms h show ?thesis
        by (simp add: max_retries_def)
    qed
  qed
next
  show "\<forall>n. (\<forall>i<3 * n. attempt_fails w (calls w KConnect + i))
                  \<and> \<not> attempt_fails w (calls w KConnect + 3 * n)
                  \<and> (\<forall>j<n. fault w KMakedirs (calls w KMakedirs + j) = None)
              \<longrightarrow> (\<exists>s' w'. connect self w = Some (Inr (), s', w')
                     \<and> regens w' = regens w + n
                     \<and> calls w' KConnect = calls w KConnect + 3 * n + 1)"
  proof (intro allI impI)
    fix n
    assume h: "(\<forall>i<3 * n. attempt_fails w (calls w KConnect + i))
                  \<and> \<not> attempt_fails w (calls w KConnect + 3 * n)
                  \<and> (\<forall>j<n. fault w KMakedirs (calls w KMakedirs + j) = None)"
    from connect_loop_rounds [OF assms, of n w] h
    show "\<exists>s' w'. connect self w = Some (Inr (), s', w')
                     \<and> regens w' = regens w + n
                     \<and> calls w' KConnect = calls w KConnect + 3 * n + 1"
      unfolding connect_def by blast
  qed
qed

theorem connect_session_scoped_unbounded_witness:
  "session_scoped (uri local_store) \<and> attempt_fails refuse_all 0
   \<and> fault refuse_all KMakedirs 0 = None \<and> connect local_store refuse_all = None"
proof -
  have h: "session_scoped (uri local_store)"
    by code_simp
  have f: "\<forall>k. attempt_fails refuse_all k" "\<forall>r. fault refuse_all KMakedirs r = None"
    by (simp_all add: attempt_fails_def refuse_all_def)
  from connect_session_scoped_unbounded [OF h, of refuse_all] f h show ?thesis
    by simp
qed

section \<open>Properties of storing and searching\<close>

lemma new_entities_ids:
  assumes "length metas = length texts" and "length embs = length texts"
  shows "map e_id (new_entities pk texts metas embs) = map (\<lambda>i. pk + int i) [0 ..< length texts]"
proof -
  have "map e_id (new_entities pk texts metas embs)
          = map ((\<lambda>i. pk + int i) \<circ> fst) (zip [0 ..< length texts] (zip texts (zip metas embs)))"
    by (simp add: new_entities_def comp_def case_prod_beta)
  also have "\<dots> = map (\<lambda>i. pk + int i) (map fst (zip [0 ..< length texts] (zip texts (zip metas embs))))"
    by simp
  also have "map fst (zip [0 ..< length texts] (zip texts (zip metas embs))) = [0 ..< length texts]"
    using assms by (simp add: map_fst_zip)
  finally show ?thesis .
qed

lemma new_entities_length:
  "length metas = length texts \<Longrightarrow> length embs = length texts
     \<Longrightarrow> length (new_entities pk texts metas embs) = length texts"
  by (simp add: new_entities_def)

lemma store_body_ok:
  assumes "collection self = Some h" and "conns w (snd h) = Some u" and "dbs w u (fst h) = Some c"
    and "fault w KInsert (calls w KInsert) = None" and "fault w KFlush (calls w KFlush) = None"
    and "length embeddings = length texts" and "length metadata = length texts"
  shows "\<exists>w'. store_body dumps self texts embeddings metadata w
           = (Inr (map (\<lambda>i. next_pk w + int i) [0 ..< length texts]), w')
         \<and> trace w' = trace w @ [EInsert (fst h) (snd h) texts (map dumps metadata) embeddings,
                                  EFlush (fst h) (snd h)]
         \<and> dbs w' u (fst h) =
             Some (c\<lparr>c_entities := c_entities c
                        @ new_entities (next_pk w) texts (map dumps metadata) embeddings,
                      c_flushed := length (c_entities c) + length texts\<rparr>)
         \<and> conns w' = conns w \<and> fault w' = fault w
         \<and> next_pk w' = next_pk w + int (length texts)"
  using assms
  by (simp add: store_body_def insert_entities_def flush_def on_collection_def env_call_def
       put_coll_def Let_def new_entities_ids new_entities_length)

lemma store_body_success:
  assumes "store_body dumps self texts embeddings metadata w = (Inr ids, w1)"
  shows "length metadata = length texts \<and> length embeddings = length texts
         \<and> ids = map (\<lambda>i. next_pk w + int i) [0 ..< length texts]
         \<and> (\<exists>h. collection self = Some h
               \<and> trace w1 = trace w @ [EInsert (fst h) (snd h) texts (map dumps metadata) embeddings,
                                        EFlush (fst h) (snd h)])"
proof -
  from assms obtain h where h: "collection self = Some h"
    by (cases "collection self") (simp_all add: store_body_def)
  from assms h obtain w2 where i: "insert_entities h texts (map dumps metadata) embeddings w = (Inr ids, w2)"
    and f: "flush h w2 = (Inr (), w1)"
    by (auto simp: store_body_def Let_def split: prod.splits sum.splits)
  from i have l: "length metadata = length texts \<and> length embeddings = length texts"
    and t2: "trace w2 = trace w @ [EInsert (fst h) (snd h) texts (map dumps metadata) embeddings]"
    and ids: "ids = map e_id (new_entities (next_pk w) texts (map dumps metadata) embeddings)"
    by (auto simp: insert_entities_def on_collection_def env_call_def put_coll_def Let_def
          split: option.splits if_splits)
  from f have t1: "trace w1 = trace w2 @ [EFlush (fst h) (snd h)]"
    by (auto simp: flush_def on_collection_def env_call_def put_coll_def
          split: option.splits)
  from l ids have "ids = map (\<lambda>i. next_pk w + int i) [0 ..< length texts]"
    by (simp add: new_entities_ids)
  with l h t1 t2 show ?thesis by simp
qed

lemma store_vectors_with_success:
  assumes "store_vectors_with dumps self texts embeddings metadata w = Some y"
  shows "\<forall>ids. fst y = Inr ids \<longrightarrow>
           length metadata = length texts \<and> length embeddings = length texts
           \<and> (\<exists>pk. ids = map (\<lambda>i. pk + int i) [0 ..< length texts])
           \<and> (\<exists>h tr. collection (fst (snd y)) = Some h
                 \<and> trace (snd (snd y))
                     = tr @ [EInsert (fst h) (snd h) texts (map dumps metadata) embeddings,
                             EFlush (fst h) (snd h)])"
  using assms
proof (induction rule: store_vectors_with.raw_induct [rotated 1, consumes 1, case_names step])
  case (step f dumps self texts embeddings metadata w y)
  obtain r w1 where b: "store_body dumps self texts embeddings metadata w = (r, w1)"
    by (cases "store_body dumps self texts embeddings metadata w")
  show ?case
  proof (cases r)
    case (Inr ids)
    with step.hyps b have y: "y = (Inr ids, self, w1)" by simp
    from store_body_success [OF b [unfolded Inr]] y show ?thesis by auto
  next
    case (Inl e)
    show ?thesis
    proof (cases "is_stale e")
      case False
      with step.hyps b Inl show ?thesis by auto
    next
      case True
      with step.hyps b Inl
      have "(case reconnect self w1 of
               None \<Rightarrow> None
             | Some (Inl e', self1, w2) \<Rightarrow> Some (Inl e', self1, w2)
             | Some (Inr u, self1, w2) \<Rightarrow> f dumps self1 texts embeddings metadata w2) = Some y"
        by simp
      then consider (raised) e' s' w' where "y = (Inl e', s', w')"
        | (retry) self1 w2 where "f dumps self1 texts embeddings metadata w2 = Some y"
        by (auto split: option.splits sum.splits)
      then show ?thesis
      proof cases
        case raised
        then show ?thesis by simp
      next
        case retry
        from step.IH [OF retry] show ?thesis .
      qed
    qed
  qed
qed





lemma calm_cong: "fault w' = fault w \<Longrightarrow> calm w' = calm w"
  by (simp add: calm_def)










lemma stale_world_calm: "k = KInsert \<or> k = KSearch \<Longrightarrow> calm (stale_world k n)"
  by (auto simp: calm_def stale_world_def)

lemma stale_world_ready: "ready ready_store (stale_world k n)"
  by (simp add: ready_def ready_store_def local_store_def stale_world_def ready_world_def)


text \<open>
  C8. For texts, embeddings and metadata of one length \<open>N\<close>, on an adapter that is set up
  and an engine that answers, \<open>store_vectors\<close> hands the engine one batch \<open>insert\<close> of
  all \<open>N\<close> entries, with every metadata mapping serialised by \<open>json.dumps\<close> (the empty
  mapping for every entry when \<open>metadata\<close> is \<open>None\<close>), then \<open>flush\<close>, and returns the
  \<open>N\<close> primary keys the engine assigned, in the order of the rows. Every successful
  return of \<open>store_vectors\<close>, in any world, returns as many keys as there are texts and
  ends with that \<open>insert\<close> and \<open>flush\<close>.
\<close>

theorem store_vectors_batch:
  assumes "length embeddings = length texts"
    and "\<forall>given. metadata = Some given \<longrightarrow> length given = length texts"
    and "collection self = Some h" and "conns w (snd h) = Some u" and "dbs w u (fst h) = Some c"
    and "fault w KInsert (calls w KInsert) = None" and "fault w KFlush (calls w KFlush) = None"
    and "ms = (case metadata of None \<Rightarrow> replicate (length texts) empty_dict | Some given \<Rightarrow> given)"
  shows "(\<exists>w'. store_vectors dumps empty_dict self texts embeddings metadata w
            = Some (Inr (map (\<lambda>i. next_pk w + int i) [0 ..< length texts]), self, w')
          \<and> trace w' = trace w @ [EInsert (fst h) (snd h) texts (map dumps ms) embeddings,
                                   EFlush (fst h) (snd h)]
          \<and> dbs w' u (fst h) =
              Some (c\<lparr>c_entities := c_entities c
                         @ new_entities (next_pk w) texts (map dumps ms) embeddings,
                       c_flushed := length (c_entities c) + length texts\<rparr>))
         \<and> (\<forall>w0 ids s' w'. store_vectors dumps empty_dict self texts embeddings metadata w0
                              = Some (Inr ids, s', w')
              \<longrightarrow> length ids = length texts
                \<and> (\<exists>h' tr. trace w' = tr @ [EInsert (fst h') (snd h') texts (map dumps ms) embeddings,
                                             EFlush (fst h') (snd h')]))"
proof
  from assms(2,8) have l: "length ms = length texts"
    by (cases metadata) simp_all
  from store_body_ok [OF assms(3-7) assms(1) l, of dumps]
  obtain w' where b: "store_body dumps self texts embeddings ms w
           = (Inr (map (\<lambda>i. next_pk w + int i) [0 ..< length texts]), w')"
    and t: "trace w' = trace w @ [EInsert (fst h) (snd h) texts (map dumps ms) embeddings,
                                  EFlush (fst h) (snd h)]"
    and d: "dbs w' u (fst h) =
             Some (c\<lparr>c_entities := c_entities c
                        @ new_entities (next_pk w) texts (map dumps ms) embeddings,
                      c_flushed := length (c_entities c) + length texts\<rparr>)"
    by blast
  from b have "store_vectors_with dumps self texts embeddings ms w
                 = Some (Inr (map (\<lambda>i. next_pk w + int i) [0 ..< length texts]), self, w')"
    by (subst store_vectors_with.simps) simp
  then have "store_vectors dumps empty_dict self texts embeddings metadata w
                 = Some (Inr (map (\<lambda>i. next_pk w + int i) [0 ..< length texts]), self, w')"
    by (simp add: store_vectors_def assms(8))
  with t d show "\<exists>w'. store_vectors dumps empty_dict self texts embeddings metadata w
            = Some (Inr (map (\<lambda>i. next_pk w + int i) [0 ..< length texts]), self, w')
          \<and> trace w' = trace w @ [EInsert (fst h) (snd h) texts (map dumps ms) embeddings,
                                   EFlush (fst h) (snd h)]
          \<and> dbs w' u (fst h) =
              Some (c\<lparr>c_entities := c_entities c
                         @ new_entities (next_pk w) texts (map dumps ms) embeddings,
                       c_flushed := length (c_entities c) + length texts\<rparr>)"
    by blast
next
  show "\<forall>w0 ids s' w'. store_vectors dumps empty_dict self texts embeddings metadata w0
                              = Some (Inr ids, s', w')
              \<longrightarrow> length ids = length texts
                \<and> (\<exists>h' tr. trace w' = tr @ [EInsert (fst h') (snd h') texts (map dumps ms) embeddings,
                                             EFlush (fst h') (snd h')])"
  proof (intro allI impI)
    fix w0 ids s' w'
    assume "store_vectors dumps empty_dict self texts embeddings metadata w0 = Some (Inr ids, s', w')"
    then have "store_vectors_with dumps self texts embeddings ms w0 = Some (Inr ids, s', w')"
      by (simp add: store_vectors_def assms(8))
    from store_vectors_with_success [OF this]
    show "length ids = length texts
            \<and> (\<exists>h' tr. trace w' = tr @ [EInsert (fst h') (snd h') texts (map dumps ms) embeddings,
                                         EFlush (fst h') (snd h')])"
      by auto
  qed
qed

theorem store_vectors_batch_witness:
  "\<exists>w'. store_vectors (\<lambda>m::unit. ''{}'') () ready_store [''alpha'', ''beta''] [[1, 0], [0, 1]] None
           ready_world
         = Some (Inr [1, 2], ready_store, w')
       \<and> trace w' = [EInsert ''study_materials'' ''sa_0a1b2c'' [''alpha'', ''beta'']
                        [''{}'', ''{}''] [[1, 0], [0, 1]],
                      EFlush ''study_materials'' ''sa_0a1b2c'']
       \<and> map_option (\<lambda>c. (map e_id (c_entities c), map e_text (c_entities c), c_flushed c))
            (dbs w' ''tmp/sa_1a2b3c4d_678400.db'' ''study_materials'')
          = Some ([1, 2], [''alpha'', ''beta''], 2)"
proof -
  have a: "length [[1, 0], [0, 1 :: real]] = length [''alpha'', ''beta'']"
    "\<forall>given. (None :: unit list option) = Some given \<longrightarrow> length given = length [''alpha'', ''beta'']"
    "collection ready_store = Some (''study_materials'', ''sa_0a1b2c'')"
    "conns ready_world (snd (''study_materials'', ''sa_0a1b2c'')) = Some ''tmp/sa_1a2b3c4d_678400.db''"
    "dbs ready_world ''tmp/sa_1a2b3c4d_678400.db'' (fst (''study_materials'', ''sa_0a1b2c''))
       = Some loaded_coll"
    "fault ready_world KInsert (calls ready_world KInsert) = None"
    "fault ready_world KFlush (calls ready_world KFlush) = None"
    "[(), ()] = (case (None :: unit list option) of
                   None \<Rightarrow> replicate (length [''alpha'', ''beta'']) ()
                 | Some given \<Rightarrow> given)"
    by (simp_all add: ready_store_def ready_world_def quiet_world_def)
  have n: "next_pk ready_world = 1" "trace ready_world = []"
    by (simp_all add: ready_world_def quiet_world_def)
  have u: "[0 ..< length [''alpha'', ''beta'']] = [0, Suc 0]"
    by (simp add: upt_rec)
  from store_vectors_batch [OF a, of "\<lambda>m. ''{}''", THEN conjunct1]
  show ?thesis
    by (auto simp: n u new_entities_def loaded_coll_def)
qed




section \<open>Properties of dropping the collection\<close>

lemma has_collection_Inr:
  assumes "has_collection name alias w = (Inr b, w1)"
  shows "\<exists>u. conns w alias = Some u \<and> b = (dbs w u name \<noteq> None)"
    and "conns w1 = conns w" and "dbs w1 = dbs w"
  using assms
  by (auto simp: has_collection_def env_call_def split: option.splits)











text \<open>On an adapter whose collection is absent, a \<open>drop\<close> that returns has done nothing:
  the adapter, the connections and the collections are as they were.\<close>

lemma drop_store_absent:
  assumes "drop_store self w = Some (Inr (), self', w')"
    and "conns w (connection_alias self) = Some u"
    and "dbs w u (collection_name self) = None"
  shows "self' = self \<and> conns w' = conns w \<and> dbs w' = dbs w"
proof -
  obtain r0 w1 where hc: "has_collection (collection_name self) (connection_alias self) w = (r0, w1)"
    by (cases "has_collection (collection_name self) (connection_alias self) w")
  from assms(1) hc obtain present where r0: "r0 = Inr present"
    by (cases r0) (simp_all add: drop_store_def)
  note h1 = has_collection_Inr [OF hc [unfolded r0]]
  from h1(1) assms(2,3) have "\<not> present" by simp
  with assms(1) hc r0 have "self' = self" "w' = w1"
    by (simp_all add: drop_store_def)
  with h1(2,3) show ?thesis by simp
qed




section \<open>Properties of the assistant\<close>

lemma setup_vector_store_history:
  "setup_vector_store a w = Some (r, a', w') \<Longrightarrow> conversation_history a' = conversation_history a"
  by (auto simp: setup_vector_store_def split: prod.splits option.splits sum.splits)

lemma search_handler_history:
  "search_handler e query top_k a w ai = Some (r, a', w', ai')
     \<Longrightarrow> conversation_history a' = conversation_history a"
  by (auto simp: search_handler_def split: if_splits prod.splits option.splits sum.splits
        dest: setup_vector_store_history)

lemma search_materials_history:
  "search_materials query top_k a w ai = Some (r, a', w', ai')
     \<Longrightarrow> conversation_history a' = conversation_history a"
  by (auto simp: search_materials_def split: prod.splits option.splits sum.splits
        dest: search_handler_history)

lemma response_body_history:
  assumes "response_body query a w ai = Some (r, a', w', ai')"
  shows "conversation_history a' = conversation_history a
           @ (case r of Inl e \<Rightarrow> [] | Inr content \<Rightarrow> [\<lparr>t_user = query, t_assistant = content\<rparr>])"
  using assms
  by (auto simp: response_body_def Let_def chat_completion_def
        split: prod.splits option.splits sum.splits dest: search_materials_history)

lemma response_body_request:
  assumes "response_body query a w ai = Some (Inr content, a', w', ai')"
  shows "requests ai' \<noteq> []
         \<and> (\<exists>context. cr_messages (last (requests ai'))
               = response_messages context (history_of (conversation_history a)) query)"
proof -
  from assms obtain found a1 ai1 where
    s: "search_materials query 5 a w ai = Some (Inr found, a1, w', ai1)"
    and r: "requests ai' = requests ai1
              @ [\<lparr>cr_model = ''gpt-4o'',
                   cr_messages = response_messages (context_of found)
                                   (history_of (conversation_history a1)) query,
                   cr_temperature = 7 / 10\<rparr>]"
    by (auto simp: response_body_def Let_def chat_completion_def
          split: prod.splits option.splits sum.splits)
  from search_materials_history [OF s] r show ?thesis by auto
qed

lemma generate_response_call:
  assumes "generate_response query a w ai = Some y"
  shows "conversation_history (fst (snd y)) = conversation_history a @ turn_of query (fst y)
         \<and> (\<forall>s. fst y = Inr (Reply s) \<longrightarrow>
               requests (snd (snd (snd y))) \<noteq> []
               \<and> (\<exists>context. cr_messages (last (requests (snd (snd (snd y)))))
                     = response_messages context (history_of (conversation_history a)) query))
         \<and> (\<forall>s. fst y = Inr (Failure s) \<longrightarrow> prefix ''Error: '' s)"
  using assms
proof (induction rule: generate_response.raw_induct [rotated 1, consumes 1, case_names step])
  case (step f query a w ai y)
  from step.hyps obtain r a1 w1 ai1 where b: "response_body query a w ai = Some (r, a1, w1, ai1)"
    by (cases "response_body query a w ai") auto
  note h = response_body_history [OF b]
  show ?case
  proof (cases r)
    case (Inr content)
    with step.hyps b have y: "y = (Inr (Reply content), a1, w1, ai1)" by simp
    from response_body_request [OF b [unfolded Inr]] h Inr y show ?thesis by simp
  next
    case (Inl e)
    with h have h1: "conversation_history a1 = conversation_history a" by simp
    show ?thesis
    proof (cases "is_stale e")
      case False
      with step.hyps b Inl have "y = (Inr (Failure (''Error: '' @ exn_str e)), a1, w1, ai1)"
        by simp
      with h1 show ?thesis by simp
    next
      case True
      with step.hyps b Inl
      have "(case setup_vector_store a1 w1 of
               None \<Rightarrow> None
             | Some (Some e', a2, w2) \<Rightarrow> Some (Inl e', a2, w2, ai1)
             | Some (None, a2, w2) \<Rightarrow> f query a2 w2 ai1) = Some y"
        by simp
      then consider (raised) e' a2 w2 where "setup_vector_store a1 w1 = Some (Some e', a2, w2)"
          "y = (Inl e', a2, w2, ai1)"
        | (retry) a2 w2 where "setup_vector_store a1 w1 = Some (None, a2, w2)"
          "f query a2 w2 ai1 = Some y"
        by (auto split: option.splits)
      then show ?thesis
      proof cases
        case raised
        from setup_vector_store_history [OF raised(1)] h1 raised(2) show ?thesis by simp
      next
        case retry
        from setup_vector_store_history [OF retry(1)] h1
        have "conversation_history a2 = conversation_history a" by simp
        with step.IH [OF retry(2)] show ?thesis by simp
      qed
    qed
  qed
qed

lemma converse_history:
  "converse qs a w ai = Some (rs, a', w', ai') \<Longrightarrow>
     length rs = length qs
     \<and> conversation_history a' = conversation_history a @ turns_of qs rs"
proof (induction qs arbitrary: a w ai rs)
  case Nil
  then show ?case by (simp add: turns_of_def)
next
  case (Cons q qs)
  from Cons.prems obtain r a1 w1 ai1 rs' where
    g: "generate_response q a w ai = Some (r, a1, w1, ai1)"
    and c: "converse qs a1 w1 ai1 = Some (rs', a', w', ai')" and rs: "rs = r # rs'"
    by (auto split: option.splits)
  from generate_response_call [OF g]
  have "conversation_history a1 = conversation_history a @ turn_of q r" by simp
  with Cons.IH [OF c] rs show ?case by (simp add: turns_of_def)
qed

lemma turns_of_replies:
  "length rs = length qs \<Longrightarrow> list_all is_reply rs \<Longrightarrow> length (turns_of qs rs) = length qs"
proof (induction qs arbitrary: rs)
  case Nil
  then show ?case by (simp add: turns_of_def)
next
  case (Cons q qs)
  then obtain r rs' where rs: "rs = r # rs'" by (cases rs) auto
  with Cons.prems have "is_reply r" by simp
  then obtain s where "r = Inr (Reply s)" by (cases r rule: is_reply.cases) auto
  with Cons rs show ?case by (simp add: turns_of_def)
qed

lemma recent_turns_last_five: "recent_turns h = drop (length h - 5) h"
proof -
  have "nat (max (int (length h) - 5) 0) = length h - 5" by arith
  then show ?thesis
    by (simp add: recent_turns_def py_slice_def norm_index_def Let_def)
qed

lemma search_vectors_serving:
  assumes "serving self w"
  shows "\<exists>found w'. search_vectors self query top_k w = Some (Inr found, self, w')
           \<and> serving self w'"
proof -
  from assms have r: "ready self w" and f: "fault w KSearch (calls w KSearch) = None"
    and c: "calm w"
    by (simp_all add: serving_def)
  from assms obtain x xs where h: "hits w (calls w KSearch) = x # xs"
    by (cases "hits w (calls w KSearch)") (auto simp: serving_def)
  let ?h = "(collection_name self, connection_alias self)"
  let ?w' = "snd (env_call KSearch (ESearch (fst ?h) (snd ?h) query top_k) w)"
  from r f h have b: "search_body self query top_k w = (Inr x, ?w')"
    by (auto simp: ready_def search_body_def search_def on_collection_def env_call_def)
  then have "search_vectors self query top_k w = Some (Inr x, self, ?w')"
    by (subst search_vectors.simps) simp
  moreover from assms have "serving self ?w'"
    by (simp add: serving_def calm_def ready_def env_call_def)
  ultimately show ?thesis by blast
qed

lemma vector_store_same: "a\<lparr>vector_store := vector_store a\<rparr> = a"
  by simp

lemma search_materials_serving:
  assumes "serving (vector_store a) w" and "answering ai"
  shows "\<exists>found w' ai'. search_materials query top_k a w ai = Some (Inr found, a, w', ai')
           \<and> serving (vector_store a) w' \<and> answering ai'
           \<and> chat_out ai' = chat_out ai \<and> chat_calls ai' = chat_calls ai"
proof -
  from assms(2) obtain v where e: "embed_out ai (embed_calls ai) = Inr v"
    by (auto simp: answering_def)
  from search_vectors_serving [OF assms(1), of v top_k]
  obtain found w' where s: "search_vectors (vector_store a) v top_k w = Some (Inr found, vector_store a, w')"
    and w': "serving (vector_store a) w'"
    by blast
  have "search_materials query top_k a w ai
          = Some (Inr found, a, w', ai\<lparr>embed_calls := Suc (embed_calls ai)\<rparr>)"
    by (simp add: search_materials_def get_embedding_def e s)
  moreover from assms(2) have "answering (ai\<lparr>embed_calls := Suc (embed_calls ai)\<rparr>)"
    by (simp add: answering_def)
  ultimately show ?thesis using w' by auto
qed

lemma generate_response_serving:
  assumes "serving (vector_store a) w" and "answering ai"
  shows "\<exists>s a' w' ai'. generate_response query a w ai = Some (Inr (Reply s), a', w', ai')
           \<and> serving (vector_store a') w' \<and> answering ai'"
proof -
  from search_materials_serving [OF assms, of query 5]
  obtain found w' ai1 where m: "search_materials query 5 a w ai = Some (Inr found, a, w', ai1)"
    and p: "serving (vector_store a) w'" "answering ai1"
    by blast
  from p(2) obtain s where c: "chat_out ai1 (chat_calls ai1) = Inr s"
    by (auto simp: answering_def)
  let ?a' = "a\<lparr>conversation_history := conversation_history a @ [\<lparr>t_user = query, t_assistant = s\<rparr>]\<rparr>"
  obtain ai2 where b: "response_body query a w ai = Some (Inr s, ?a', w', ai2)"
    and ai2: "answering ai2"
    using m c p(2) by (auto simp: response_body_def Let_def chat_completion_def answering_def)
  from b have "generate_response query a w ai = Some (Inr (Reply s), ?a', w', ai2)"
    by (subst generate_response.simps) simp
  with p(1) ai2 show ?thesis by auto
qed

lemma converse_serving:
  "serving (vector_store a) w \<Longrightarrow> answering ai \<Longrightarrow>
     \<exists>rs a' w' ai'. converse qs a w ai = Some (rs, a', w', ai') \<and> list_all is_reply rs"
proof (induction qs arbitrary: a w ai)
  case Nil
  then show ?case by simp
next
  case (Cons q qs)
  from generate_response_serving [OF Cons.prems, of q]
  obtain s a1 w1 ai1 where g: "generate_response q a w ai = Some (Inr (Reply s), a1, w1, ai1)"
    and p: "serving (vector_store a1) w1" "answering ai1"
    by blast
  from Cons.IH [OF p] obtain rs a' w' ai' where
    c: "converse qs a1 w1 ai1 = Some (rs, a', w', ai')" "list_all is_reply rs"
    by blast
  from g c show ?case by simp
qed

lemma stale_world_serving: "serving ready_store (stale_world k 0)"
  by (simp add: serving_def stale_world_calm calm_def stale_world_ready)
     (simp add: stale_world_def ready_world_def quiet_world_def)

lemma plain_client_answering: "answering plain_client"
  by (simp add: answering_def plain_client_def)

lemma down_client_search:
  "search_materials query 5 fresh_assistant w down_client
     = Some (Inl (OtherException ''timeout''), fresh_assistant, w, down_client\<lparr>embed_calls := 1\<rparr>)"
  by (simp add: search_materials_def get_embedding_def search_handler_def down_client_def
        plain_client_def)

lemma generation_body_not_json:
  assumes "search_materials topic 5 a w ai = Some (Inr found, a1, w1, ai1)"
    and "chat_out ai1 (chat_calls ai1) = Inr content"
    and "strip_fence content = Inr stripped" and "loads stripped = None"
  shows "\<exists>ai2. generation_body loads system_message prompt_of topic a w ai
           = Some (Inl (JSONDecodeError stripped), a1, w1, ai2)"
  using assms by (simp add: generation_body_def chat_completion_def)

lemma plain_reply_not_fenced:
  "strip_fence ''Cells are the units of life.'' = Inr ''Cells are the units of life.''"
  by code_simp

text \<open>A fenced reply whose text is padded with a no-break space, a next-line character
  and a line feed: the padding is stripped with the fences, as \<open>str.strip\<close> does.\<close>

lemma padded_reply_stripped:
  "strip_fence (fence @ ''json'' @ [CHR 0xA0] @ ''[1, 2]'' @ [CHR 0x85, CHR 0x0A] @ fence)
     = Inr ''[1, 2]''"
  by code_simp

lemma py_strip_latin1:
  "py_strip ([CHR 0x85, CHR 0x20] @ ''[]'' @ [CHR 0xA0, CHR 0x09]) = ''[]''"
  by code_simp

lemma plain_search:
  "\<exists>found w1 ai1. search_materials ''cells'' 5 fresh_assistant (stale_world KSearch 0) plain_client
                     = Some (Inr found, fresh_assistant, w1, ai1)
     \<and> chat_out ai1 (chat_calls ai1) = Inr ''Cells are the units of life.''"
proof -
  have s: "serving (vector_store fresh_assistant) (stale_world KSearch 0)"
    by (simp add: fresh_assistant_def stale_world_serving)
  from search_materials_serving [OF s plain_client_answering, of "''cells''" 5]
  show ?thesis by (auto simp: plain_client_def)
qed

text \<open>
  C9. When the \<open>try\<close> block of \<open>generate_response\<close> fails with an exception other than
  the stale connection (an embedding or search failure, raised by \<open>search_materials\<close>, or a
  failure of the chat completion), the call returns the text \<open>"Error: "\<close> followed by the
  message of the exception, and the conversation history is as it was before the call.
  Every call that returns from its last handler, also after a recovery from a stale
  connection, returns a text that begins with \<open>"Error: "\<close> and appends no turn.
\<close>

theorem generate_response_failure:
  "(\<forall>e a1 w1 ai1. search_materials query 5 a w ai = Some (Inl e, a1, w1, ai1) \<and> \<not> is_stale e
      \<longrightarrow> generate_response query a w ai
            = Some (Inr (Failure (''Error: '' @ exn_str e)), a1, w1, ai1)
          \<and> get_conversation_history a1 = get_conversation_history a)
   \<and> (\<forall>found e a1 w1 ai1. search_materials query 5 a w ai = Some (Inr found, a1, w1, ai1)
         \<and> chat_out ai1 (chat_calls ai1) = Inl e \<and> \<not> is_stale e
      \<longrightarrow> (\<exists>ai2. generate_response query a w ai
                   = Some (Inr (Failure (''Error: '' @ exn_str e)), a1, w1, ai2))
          \<and> get_conversation_history a1 = get_conversation_history a)
   \<and> (\<forall>s a' w' ai'. generate_response query a w ai = Some (Inr (Failure s), a', w', ai')
      \<longrightarrow> prefix ''Error: '' (answer_text (Failure s))
          \<and> get_conversation_history a' = get_conversation_history a)"
proof (intro conjI allI impI)
  fix e a1 w1 ai1
  assume h: "search_materials query 5 a w ai = Some (Inl e, a1, w1, ai1) \<and> \<not> is_stale e"
  then have "response_body query a w ai = Some (Inl e, a1, w1, ai1)"
    by (simp add: response_body_def)
  with h show "generate_response query a w ai
                 = Some (Inr (Failure (''Error: '' @ exn_str e)), a1, w1, ai1)"
    by (subst generate_response.simps) simp
  from h search_materials_history [of query 5 a w ai "Inl e" a1 w1 ai1]
  show "get_conversation_history a1 = get_conversation_history a"
    by (simp add: get_conversation_history_def)
next
  fix found e a1 w1 ai1
  assume h: "search_materials query 5 a w ai = Some (Inr found, a1, w1, ai1)
         \<and> chat_out ai1 (chat_calls ai1) = Inl e \<and> \<not> is_stale e"
  then obtain ai2 where "response_body query a w ai = Some (Inl e, a1, w1, ai2)"
    by (simp add: response_body_def Let_def chat_completion_def)
  with h have "generate_response query a w ai
                 = Some (Inr (Failure (''Error: '' @ exn_str e)), a1, w1, ai2)"
    by (subst generate_response.simps) simp
  then show "\<exists>ai2. generate_response query a w ai
                   = Some (Inr (Failure (''Error: '' @ exn_str e)), a1, w1, ai2)" ..
  from h search_materials_history [of query 5 a w ai "Inr found" a1 w1 ai1]
  show "get_conversation_history a1 = get_conversation_history a"
    by (simp add: get_conversation_history_def)
next
  fix s a' w' ai'
  assume g: "generate_response query a w ai = Some (Inr (Failure s), a', w', ai')"
  from generate_response_call [OF g]
  show "prefix ''Error: '' (answer_text (Failure s))"
    and "get_conversation_history a' = get_conversation_history a"
    by (simp_all add: get_conversation_history_def)
qed

theorem generate_response_failure_witness:
  "generate_response ''What is a cell?'' fresh_assistant ready_world down_client
     = Some (Inr (Failure ''Error: timeout''), fresh_assistant, ready_world,
             down_client\<lparr>embed_calls := 1\<rparr>)
   \<and> get_conversation_history fresh_assistant = []"
proof -
  have s: "search_materials ''What is a cell?'' 5 fresh_assistant ready_world down_client
             = Some (Inl (OtherException ''timeout''), fresh_assistant, ready_world,
                     down_client\<lparr>embed_calls := 1\<rparr>)
           \<and> \<not> is_stale (OtherException ''timeout'')"
    by (simp add: down_client_search)
  from generate_response_failure [of "''What is a cell?''" fresh_assistant ready_world down_client,
      THEN conjunct1, rule_format, OF s]
  have "generate_response ''What is a cell?'' fresh_assistant ready_world down_client
     = Some (Inr (Failure ''Error: timeout''), fresh_assistant, ready_world,
             down_client\<lparr>embed_calls := 1\<rparr>)"
    by simp
  moreover have "get_conversation_history fresh_assistant = []"
    by (simp add: get_conversation_history_def fresh_assistant_def)
  ultimately show ?thesis ..
qed

text \<open>
  C6, as stated, fails: a call of \<open>generate_response\<close> that fails returns an error text
  and appends no turn. Here the embedding request of the one call times out: after one
  call the history is empty.
\<close>

theorem failed_call_appends_no_turn:
  "\<exists>rs a' w' ai'. converse [''What is a cell?''] fresh_assistant ready_world down_client
                     = Some (rs, a', w', ai')
     \<and> length rs = 1 \<and> get_conversation_history a' = []"
proof -
  have "response_body ''What is a cell?'' fresh_assistant ready_world down_client
          = Some (Inl (OtherException ''timeout''), fresh_assistant, ready_world,
                  down_client\<lparr>embed_calls := 1\<rparr>)"
    by (simp add: response_body_def down_client_search)
  then have "generate_response ''What is a cell?'' fresh_assistant ready_world down_client
     = Some (Inr (Failure ''Error: timeout''), fresh_assistant, ready_world,
             down_client\<lparr>embed_calls := 1\<rparr>)"
    by (subst generate_response.simps) simp
  then show ?thesis
    by (simp add: get_conversation_history_def fresh_assistant_def)
qed

text \<open>
  C6, amended. After \<open>M\<close> calls of \<open>generate_response\<close>, \<open>get_conversation_history\<close>
  returns the history before them followed by one turn \<open>{user, assistant}\<close> for each call
  that returned the reply of the chat completion, in call order, and none for a call that
  failed: exactly \<open>M\<close> more turns when every call returned a reply, as they all do when the
  adapter is set up and the engine and the client answer. The chat request of a call
  carries, as its history, the last 5 turns of the history before the call and no other.
\<close>

theorem conversation_history_turns:
  "(\<forall>rs a' w' ai'. converse qs a w ai = Some (rs, a', w', ai')
      \<longrightarrow> length rs = length qs
        \<and> get_conversation_history a' = get_conversation_history a @ turns_of qs rs
        \<and> (list_all is_reply rs
             \<longrightarrow> length (get_conversation_history a')
                   = length (get_conversation_history a) + length qs))
   \<and> (serving (vector_store a) w \<and> answering ai
      \<longrightarrow> (\<exists>rs a' w' ai'. converse qs a w ai = Some (rs, a', w', ai') \<and> list_all is_reply rs))
   \<and> (\<forall>q s a' w' ai'. generate_response q a w ai = Some (Inr (Reply s), a', w', ai')
      \<longrightarrow> requests ai' \<noteq> []
        \<and> (\<exists>context. cr_messages (last (requests ai'))
              = response_messages context (history_of (get_conversation_history a)) q))
   \<and> history_of (get_conversation_history a)
       = py_join nl (map (\<lambda>msg. ''Student: '' @ t_user msg @ nl @ ''Assistant: '' @ t_assistant msg)
           (drop (length (get_conversation_history a) - 5) (get_conversation_history a)))"
proof (intro conjI allI impI)
  fix rs a' w' ai'
  assume c: "converse qs a w ai = Some (rs, a', w', ai')"
  from converse_history [OF c]
  show l: "length rs = length qs"
    and h: "get_conversation_history a' = get_conversation_history a @ turns_of qs rs"
    by (simp_all add: get_conversation_history_def)
  assume "list_all is_reply rs"
  from turns_of_replies [OF l this] h
  show "length (get_conversation_history a') = length (get_conversation_history a) + length qs"
    by simp
next
  assume "serving (vector_store a) w \<and> answering ai"
  then show "\<exists>rs a' w' ai'. converse qs a w ai = Some (rs, a', w', ai') \<and> list_all is_reply rs"
    using converse_serving [of a w ai qs] by simp
next
  fix q s a' w' ai'
  assume g: "generate_response q a w ai = Some (Inr (Reply s), a', w', ai')"
  from generate_response_call [OF g]
  show "requests ai' \<noteq> []"
    and "\<exists>context. cr_messages (last (requests ai'))
              = response_messages context (history_of (get_conversation_history a)) q"
    by (simp_all add: get_conversation_history_def)
next
  show "history_of (get_conversation_history a)
       = py_join nl (map (\<lambda>msg. ''Student: '' @ t_user msg @ nl @ ''Assistant: '' @ t_assistant msg)
           (drop (length (get_conversation_history a) - 5) (get_conversation_history a)))"
    by (simp add: history_of_def recent_turns_last_five)
qed

theorem conversation_history_turns_witness:
  "serving (vector_store fresh_assistant) (stale_world KSearch 0) \<and> answering plain_client
   \<and> (\<exists>rs a' w' ai'. converse [''What is a cell?'', ''And a nucleus?''] fresh_assistant
                        (stale_world KSearch 0) plain_client = Some (rs, a', w', ai')
         \<and> list_all is_reply rs
         \<and> get_conversation_history a'
             = turns_of [''What is a cell?'', ''And a nucleus?''] rs
         \<and> length (get_conversation_history a') = 2)"
proof -
  have s: "serving (vector_store fresh_assistant) (stale_world KSearch 0)"
    by (simp add: fresh_assistant_def stale_world_serving)
  note t = conversation_history_turns [of "[''What is a cell?'', ''And a nucleus?'']"
      fresh_assistant "stale_world KSearch 0" plain_client]
  from t [THEN conjunct2, THEN conjunct1] s plain_client_answering
  obtain rs a' w' ai' where c: "converse [''What is a cell?'', ''And a nucleus?''] fresh_assistant
                        (stale_world KSearch 0) plain_client = Some (rs, a', w', ai')"
    and r: "list_all is_reply rs"
    by blast
  from t [THEN conjunct1, rule_format, OF c] r
  have "get_conversation_history a' = turns_of [''What is a cell?'', ''And a nucleus?''] rs"
    "length (get_conversation_history a') = 2"
    by (auto simp: get_conversation_history_def fresh_assistant_def numeral_2_eq_2)
  with c r s plain_client_answering show ?thesis by blast
qed

text \<open>
  C3, as stated, fails for the quiz: the placeholder of \<open>generate_quiz\<close> has one option,
  the string \<open>"Error"\<close>, not four. Here the chat completion is not JSON.
\<close>

theorem quiz_placeholder_one_option:
  "\<not> single_item (quiz_item 4) (quiz_placeholder ''Could not generate quiz.'')
   \<and> (\<exists>st. generate_quiz loads_empty_list ''cells'' 5 fresh_assistant (stale_world KSearch 0)
            plain_client
          = Some (Inr (quiz_placeholder ''Could not generate quiz.''), st))"
proof -
  from plain_search obtain found w1 ai1 where
    s: "search_materials ''cells'' 5 fresh_assistant (stale_world KSearch 0) plain_client
                     = Some (Inr found, fresh_assistant, w1, ai1)"
    and c: "chat_out ai1 (chat_calls ai1) = Inr ''Cells are the units of life.''"
    by blast
  have l: "loads_empty_list ''Cells are the units of life.'' = None"
    by (simp add: loads_empty_list_def)
  from generation_body_not_json [where loads = loads_empty_list and system_message = quiz_system
      and prompt_of = "quiz_prompt 5 ''cells''", OF s c plain_reply_not_fenced l]
  have "\<exists>st. generate_quiz loads_empty_list ''cells'' 5 fresh_assistant (stale_world KSearch 0)
            plain_client
          = Some (Inr (quiz_placeholder ''Could not generate quiz.''), st)"
    by (auto simp: generate_quiz_def)
  moreover have "\<not> single_item (quiz_item 4) (quiz_placeholder ''Could not generate quiz.'')"
    by (simp add: quiz_placeholder_def)
  ultimately show ?thesis by blast
qed

text \<open>
  C3, amended. \<open>generate_flashcards\<close> and \<open>generate_quiz\<close> raise nothing. When their
  \<open>try\<close> block fails (in particular when the reply of the chat completion, after the
  stripping of a fenced code block, is not valid JSON), each returns a list of one
  placeholder: \<open>{question, answer}\<close> for the flashcards; for the quiz \<open>{question, options,
  correct_index, explanation}\<close> with the one option \<open>"Error"\<close> and \<open>correct_index = 0\<close>.
\<close>

theorem generation_placeholders:
  "(\<forall>e st. generate_flashcards loads topic n a w ai \<noteq> Some (Inl e, st))
   \<and> (\<forall>e st. generate_quiz loads topic n a w ai \<noteq> Some (Inl e, st))
   \<and> (\<forall>e st. generation_body loads flashcards_system (flashcards_prompt n topic) topic a w ai
                 = Some (Inl e, st)
        \<longrightarrow> (\<exists>msg. generate_flashcards loads topic n a w ai
                     = Some (Inr (flashcard_placeholder msg), st)))
   \<and> (\<forall>e st. generation_body loads quiz_system (quiz_prompt n topic) topic a w ai
                 = Some (Inl e, st)
        \<longrightarrow> (\<exists>msg. generate_quiz loads topic n a w ai
                     = Some (Inr (quiz_placeholder msg), st)))
   \<and> (\<forall>found a1 w1 ai1 content stripped.
          search_materials topic 5 a w ai = Some (Inr found, a1, w1, ai1)
          \<and> chat_out ai1 (chat_calls ai1) = Inr content
          \<and> strip_fence content = Inr stripped \<and> loads stripped = None
        \<longrightarrow> (\<exists>ai2. generate_flashcards loads topic n a w ai
                     = Some (Inr (flashcard_placeholder ''Could not generate flashcards.''),
                             a1, w1, ai2))
          \<and> (\<exists>ai2. generate_quiz loads topic n a w ai
                     = Some (Inr (quiz_placeholder ''Could not generate quiz.''), a1, w1, ai2)))
   \<and> (\<forall>msg. single_item flashcard_item (flashcard_placeholder msg))
   \<and> (\<forall>msg. single_item (quiz_item 1) (quiz_placeholder msg))"
proof (intro conjI allI impI)
  fix e st
  show "generate_flashcards loads topic n a w ai \<noteq> Some (Inl e, st)"
    by (simp add: generate_flashcards_def split: option.splits prod.splits sum.splits exn.splits)
  show "generate_quiz loads topic n a w ai \<noteq> Some (Inl e, st)"
    by (simp add: generate_quiz_def split: option.splits prod.splits sum.splits exn.splits)
next
  fix e st
  assume "generation_body loads flashcards_system (flashcards_prompt n topic) topic a w ai
                 = Some (Inl e, st)"
  then show "\<exists>msg. generate_flashcards loads topic n a w ai
                     = Some (Inr (flashcard_placeholder msg), st)"
    by (cases e) (auto simp: generate_flashcards_def)
next
  fix e st
  assume "generation_body loads quiz_system (quiz_prompt n topic) topic a w ai
                 = Some (Inl e, st)"
  then show "\<exists>msg. generate_quiz loads topic n a w ai
                     = Some (Inr (quiz_placeholder msg), st)"
    by (cases e) (auto simp: generate_quiz_def)
next
  fix found a1 w1 ai1 content stripped
  assume h: "search_materials topic 5 a w ai = Some (Inr found, a1, w1, ai1)
          \<and> chat_out ai1 (chat_calls ai1) = Inr content
          \<and> strip_fence content = Inr stripped \<and> loads stripped = None"
  then have s: "search_materials topic 5 a w ai = Some (Inr found, a1, w1, ai1)"
    and c: "chat_out ai1 (chat_calls ai1) = Inr content"
    and f: "strip_fence content = Inr stripped" and l: "loads stripped = None"
    by simp_all
  from generation_body_not_json [where loads = loads and system_message = flashcards_system
      and prompt_of = "flashcards_prompt n topic", OF s c f l]
  show "\<exists>ai2. generate_flashcards loads topic n a w ai
                     = Some (Inr (flashcard_placeholder ''Could not generate flashcards.''),
                             a1, w1, ai2)"
    by (auto simp: generate_flashcards_def)
  from generation_body_not_json [where loads = loads and system_message = quiz_system
      and prompt_of = "quiz_prompt n topic", OF s c f l]
  show "\<exists>ai2. generate_quiz loads topic n a w ai
                     = Some (Inr (quiz_placeholder ''Could not generate quiz.''), a1, w1, ai2)"
    by (auto simp: generate_quiz_def)
next
  fix msg
  show "single_item flashcard_item (flashcard_placeholder msg)"
    by (simp add: flashcard_placeholder_def)
  show "single_item (quiz_item 1) (quiz_placeholder msg)"
    by (simp add: quiz_placeholder_def)
qed

theorem generation_placeholders_witness:
  "(\<exists>st. generate_flashcards loads_empty_list ''cells'' 5 fresh_assistant (stale_world KSearch 0)
            plain_client
          = Some (Inr (JList [JDict [(''question'', JStr ''Error''),
                                     (''answer'', JStr ''Could not generate flashcards.'')]]), st))
   \<and> (\<exists>st. generate_quiz loads_empty_list ''cells'' 5 fresh_assistant (stale_world KSearch 0)
            plain_client
          = Some (Inr (JList [JDict [(''question'', JStr ''Error''),
                                     (''options'', JList [JStr ''Error'']),
                                     (''correct_index'', JInt 0),
                                     (''explanation'', JStr ''Could not generate quiz.'')]]), st))"
proof -
  from plain_search obtain found w1 ai1 where
    h: "search_materials ''cells'' 5 fresh_assistant (stale_world KSearch 0) plain_client
                     = Some (Inr found, fresh_assistant, w1, ai1)
        \<and> chat_out ai1 (chat_calls ai1) = Inr ''Cells are the units of life.''
        \<and> strip_fence ''Cells are the units of life.'' = Inr ''Cells are the units of life.''
        \<and> loads_empty_list ''Cells are the units of life.'' = None"
    by (auto simp: plain_reply_not_fenced loads_empty_list_def)
  from generation_placeholders [of loads_empty_list "''cells''" 5 fresh_assistant
      "stale_world KSearch 0" plain_client, THEN conjunct2, THEN conjunct2, THEN conjunct2,
      THEN conjunct2, THEN conjunct1, rule_format, OF h]
  show ?thesis
    by (auto simp: flashcard_placeholder_def quiz_placeholder_def)
qed

end
